theory Spec2Isabelle
  imports Complex_Main "HOL-Library.AList" "HOL-Library.Product_Lexorder"
begin

section \<open>The flat vector index of the resume search service\<close>

text \<open>
  This theory embeds \<^verbatim>\<open>backend/app/services/faiss_service.py\<close>: the class
  \<^verbatim>\<open>FAISSService\<close> with its three class attributes \<^verbatim>\<open>_index\<close>, \<^verbatim>\<open>_metadata\<close> and
  \<^verbatim>\<open>_id_to_index\<close>, the two files it persists them to, and its operations.

  Python dictionaries keep insertion order, and the rebuild after a delete depends on that
  order, so a dictionary is an association list: assigning to a key that is present
  replaces the value in place, assigning to a new key appends
  (\<^const>\<open>AList.update\<close>), \<^verbatim>\<open>del\<close> removes the key (\<^const>\<open>AList.delete\<close>), a lookup is
  \<^const>\<open>map_of\<close>.

  The source hands the library arrays of 32-bit floats: every embedding and every query
  goes through \<^verbatim>\<open>np.array([...], dtype=np.float32)\<close>. What that cast makes of a number
  and what the library's floating-point sum makes of two rows are not in the repository;
  they are parameters of the model (see \<open>numerics\<close> below). The general theorems hold for
  every numerics; the example states have components 0 and 1 only, on which the cast and
  the sum are exact.
\<close>

subsection \<open>Numbers\<close>

text \<open>
  An embedding or a query arrives as a list of Python floats, taken here as real numbers
  (an embedding holds finite values). The type \<open>'f\<close> stands for the 32-bit floats the
  library stores and compares. A \<open>numerics\<close> gives
  \<^item> \<open>float32 x\<close>, the 32-bit float that the cast makes of \<open>x\<close> (rounded, or an infinity
    when \<open>x\<close> is out of range);
  \<^item> \<open>fvec_L2sqr q w\<close>, the squared Euclidean distance that the library computes between
    two rows of 32-bit floats: \<open>Some d\<close> when the computed value is a number below the
    library's starting threshold (the greatest finite 32-bit float), \<open>None\<close> when it has
    overflowed or is not a number.
\<close>

type_synonym vec = "real list"

record 'f numerics =
  float32 :: "real \<Rightarrow> 'f"
  fvec_L2sqr :: "'f list \<Rightarrow> 'f list \<Rightarrow> real option"

text \<open>The squared Euclidean distance in exact arithmetic.\<close>

definition l2sqr :: "vec \<Rightarrow> vec \<Rightarrow> real" where
  "l2sqr q v = (\<Sum>(a, b) \<leftarrow> zip q v. (a - b) * (a - b))"

subsection \<open>The vector store (the library's flat L2 index)\<close>

record 'f flat_index =
  idx_d :: nat
  idx_xb :: "'f list list"

text \<open>
  Modelled from the spec: the FAISS library is a third-party dependency and is not part of
  the repository. Section 4.1 of the specification describes the store the service relies
  on: it is append-only, a vector whose length is not the dimension is rejected, positions
  are 0-based and sequential, and a search computes the squared Euclidean distance to every
  stored vector and returns the \<open>k\<close> smallest ascending, ties broken by ascending position.
  The Python wrapper of the library asserts that the dimension of its argument is the
  index's and that \<open>k\<close> is positive; a failed assertion is the value \<open>None\<close>.

  A position whose computed distance is not below the starting threshold never enters the
  result: its slot keeps the label -1, which no position equals, so the loop of
  \<^verbatim>\<open>search_resumes\<close> skips it. The ranking leaves those positions out.
\<close>

definition IndexFlatL2 :: "nat \<Rightarrow> 'f flat_index" where
  "IndexFlatL2 n = \<lparr>idx_d = n, idx_xb = []\<rparr>"

definition ntotal :: "'f flat_index \<Rightarrow> nat" where
  "ntotal ix = length (idx_xb ix)"

definition index_add :: "'f flat_index \<Rightarrow> 'f list \<Rightarrow> 'f flat_index option" where
  "index_add ix v =
     (if length v = idx_d ix then Some (ix\<lparr>idx_xb := idx_xb ix @ [v]\<rparr>) else None)"

text \<open>Every reported position with its computed distance to the query, nearest first.\<close>

definition ranking :: "'f numerics \<Rightarrow> 'f flat_index \<Rightarrow> 'f list \<Rightarrow> (nat \<times> real) list" where
  "ranking nm ix q =
     sort_key (\<lambda>(i, d). (d, i))
       (List.map_filter (\<lambda>(i, w). map_option (Pair i) (fvec_L2sqr nm q w))
          (enumerate 0 (idx_xb ix)))"

definition index_search ::
  "'f numerics \<Rightarrow> 'f flat_index \<Rightarrow> 'f list \<Rightarrow> int \<Rightarrow> (nat \<times> real) list option" where
  "index_search nm ix q k =
     (if length q = idx_d ix \<and> 0 < k then Some (take (nat k) (ranking nm ix q)) else None)"

subsection \<open>The state of the service\<close>

type_synonym attrs = "(string \<times> string) list"

text \<open>
  The value stored under a resume id: \<^verbatim>\<open>{"text": ..., "metadata": ...}\<close>. The attributes
  are opaque to the service; they are modelled as a list of key and value strings.
\<close>

record resume_data =
  resume_text :: string
  resume_metadata :: attrs

text \<open>
  A file on disk: absent, present but unreadable (reading it raises), or present with a
  content. The metadata file is a JSON object whose keys \<^verbatim>\<open>"metadata"\<close> and
  \<^verbatim>\<open>"id_to_index"\<close> may each be missing (the source reads them with a default).
\<close>

datatype 'a artifact = Absent | Malformed | Good 'a

record metadata_json =
  json_metadata :: "(string \<times> resume_data) list option"
  json_id_to_index :: "(string \<times> nat) list option"

text \<open>The messages of level warning and error that the service logs (info is left out).\<close>

datatype log_event =
  Failed_to_load_index | Failed_to_load_metadata
  | Failed_to_save_index | Failed_to_save_metadata
  | Failed_to_add_resume | Search_failed | Failed_to_delete_resume
  | No_resumes_in_index | Resume_not_found

record 'f service =
  index :: "'f flat_index option"
  metadata :: "(string \<times> resume_data) list"
  id_to_index :: "(string \<times> nat) list"
  index_file :: "'f flat_index artifact"
  metadata_file :: "metadata_json artifact"
  logged :: "log_event list"

text \<open>The three class attributes: what the service holds in memory.\<close>

definition in_memory ::
  "'f service \<Rightarrow> 'f flat_index option \<times> (string \<times> resume_data) list \<times> (string \<times> nat) list"
  where
  "in_memory s = (index s, metadata s, id_to_index s)"

text \<open>
  A new process starts with the class body's values (\<^verbatim>\<open>_index = None\<close>,
  \<^verbatim>\<open>_metadata = {}\<close>, \<^verbatim>\<open>_id_to_index = {}\<close>) and whatever is on disk.
\<close>

definition restart :: "'f service \<Rightarrow> 'f service" where
  "restart s = s\<lparr>index := None, metadata := [], id_to_index := []\<rparr>"

definition fresh :: "'f service" where
  "fresh = \<lparr>index = None, metadata = [], id_to_index = [],
            index_file = Absent, metadata_file = Absent, logged = []\<rparr>"

subsection \<open>Loading and saving\<close>

definition load_index :: "'f service \<Rightarrow> 'f service" where
  "load_index s =
     (case index_file s of
        Good ix \<Rightarrow> s\<lparr>index := Some ix\<rparr>
      | Absent \<Rightarrow> s\<lparr>index := Some (IndexFlatL2 384)\<rparr>
      | Malformed \<Rightarrow>
          s\<lparr>index := Some (IndexFlatL2 384), logged := logged s @ [Failed_to_load_index]\<rparr>)"

definition load_metadata :: "'f service \<Rightarrow> 'f service" where
  "load_metadata s =
     (case metadata_file s of
        Good j \<Rightarrow>
          s\<lparr>metadata := (case json_metadata j of None \<Rightarrow> [] | Some m \<Rightarrow> m),
            id_to_index := (case json_id_to_index j of None \<Rightarrow> [] | Some m \<Rightarrow> m)\<rparr>
      | Absent \<Rightarrow> s\<lparr>metadata := [], id_to_index := []\<rparr>
      | Malformed \<Rightarrow>
          s\<lparr>metadata := [], id_to_index := [],
            logged := logged s @ [Failed_to_load_metadata]\<rparr>)"

text \<open>
  A write to disk succeeds, or raises leaving the file as it was, or raises leaving a
  truncated file behind. Which of the three happens is the environment's choice, so each
  operation that saves takes the outcome of its two writes as an argument. Both save
  routines catch the exception themselves and log it.
\<close>

datatype write_outcome = Written | Write_failed | Write_torn

definition save_index :: "write_outcome \<Rightarrow> 'f service \<Rightarrow> 'f service" where
  "save_index w s =
     (case index s of
        None \<Rightarrow> s
      | Some ix \<Rightarrow>
          (case w of
             Written \<Rightarrow> s\<lparr>index_file := Good ix\<rparr>
           | Write_failed \<Rightarrow> s\<lparr>logged := logged s @ [Failed_to_save_index]\<rparr>
           | Write_torn \<Rightarrow>
               s\<lparr>index_file := Malformed, logged := logged s @ [Failed_to_save_index]\<rparr>))"

definition save_metadata :: "write_outcome \<Rightarrow> 'f service \<Rightarrow> 'f service" where
  "save_metadata w s =
     (case w of
        Written \<Rightarrow>
          s\<lparr>metadata_file :=
              Good \<lparr>json_metadata = Some (metadata s),
                    json_id_to_index = Some (id_to_index s)\<rparr>\<rparr>
      | Write_failed \<Rightarrow> s\<lparr>logged := logged s @ [Failed_to_save_metadata]\<rparr>
      | Write_torn \<Rightarrow>
          s\<lparr>metadata_file := Malformed, logged := logged s @ [Failed_to_save_metadata]\<rparr>)"

definition initialize :: "'f service \<Rightarrow> 'f service" where
  "initialize s = load_metadata (load_index s)"

text \<open>The guard \<^verbatim>\<open>if FAISSService._index is None: FAISSService.initialize()\<close>.\<close>

definition ensure_index :: "'f service \<Rightarrow> 'f service" where
  "ensure_index s = (case index s of None \<Rightarrow> initialize s | Some ix \<Rightarrow> s)"

subsection \<open>The operations\<close>

text \<open>
  Every operation of the source runs inside \<^verbatim>\<open>try: ... except Exception\<close> and turns an
  exception into its failure value (\<open>False\<close>, \<open>None\<close>) after logging it; what was assigned
  before the exception stays assigned. The branch for an index that is still \<open>None\<close> after
  \<^const>\<open>ensure_index\<close> stands for the attribute error the source would catch there; it is
  never taken, since \<^const>\<open>initialize\<close> always sets an index.

  In \<^verbatim>\<open>add_resume\<close> the embedding is cast to 32-bit floats, the library rejects a vector
  of another dimension before anything is stored, and the position is read before the
  vector is appended. In \<^verbatim>\<open>search_resumes\<close> the query is cast to 32-bit floats after the
  test for an empty index.
\<close>

definition add_resume ::
  "'f numerics \<Rightarrow> write_outcome \<times> write_outcome \<Rightarrow> 'f service \<Rightarrow> string \<Rightarrow> string \<Rightarrow> vec
     \<Rightarrow> attrs option \<Rightarrow> 'f service \<times> bool" where
  "add_resume nm io s resume_id doc embedding md =
     (let s1 = ensure_index s in
      case index s1 of
        None \<Rightarrow> (s1\<lparr>logged := logged s1 @ [Failed_to_add_resume]\<rparr>, False)
      | Some ix \<Rightarrow>
          (let embedding_array = map (float32 nm) embedding;
               index_position = ntotal ix in
           case index_add ix embedding_array of
             None \<Rightarrow> (s1\<lparr>logged := logged s1 @ [Failed_to_add_resume]\<rparr>, False)
           | Some ix' \<Rightarrow>
               (let s2 = s1\<lparr>index := Some ix',
                            metadata := AList.update resume_id
                               \<lparr>resume_text = doc,
                                resume_metadata = (case md of None \<Rightarrow> [] | Some m \<Rightarrow> m)\<rparr>
                               (metadata s1),
                            id_to_index :=
                               AList.update resume_id index_position (id_to_index s1)\<rparr>
                in (save_metadata (snd io) (save_index (fst io) s2), True))))"

record results =
  ids :: "string list"
  distances :: "real list"
  documents :: "string list"
  metadatas :: "attrs list"

definition no_results :: results where
  "no_results = \<lparr>ids = [], distances = [], documents = [], metadatas = []\<rparr>"

text \<open>The reversed dictionary \<^verbatim>\<open>{v: k for k, v in _id_to_index.items()}\<close>.\<close>

definition index_to_id :: "(string \<times> nat) list \<Rightarrow> (nat \<times> string) list" where
  "index_to_id m = fold (\<lambda>(k, v) acc. AList.update v k acc) m []"

text \<open>One round of the loop that builds the results from a position and its distance.\<close>

definition add_hit ::
  "(nat \<times> string) list \<Rightarrow> (string \<times> resume_data) list \<Rightarrow> nat \<times> real \<Rightarrow> results \<Rightarrow> results"
  where
  "add_hit i2id meta hit r =
     (case map_of i2id (fst hit) of
        None \<Rightarrow> r
      | Some resume_id \<Rightarrow>
          r\<lparr>ids := ids r @ [resume_id],
            distances := distances r @ [snd hit],
            documents := documents r @
               [case map_of meta resume_id of None \<Rightarrow> [] | Some rd \<Rightarrow> resume_text rd],
            metadatas := metadatas r @
               [case map_of meta resume_id of None \<Rightarrow> [] | Some rd \<Rightarrow> resume_metadata rd]\<rparr>)"

definition search_resumes ::
  "'f numerics \<Rightarrow> 'f service \<Rightarrow> vec \<Rightarrow> int \<Rightarrow> 'f service \<times> results option" where
  "search_resumes nm s query_embedding n_results =
     (let s1 = ensure_index s in
      case index s1 of
        None \<Rightarrow> (s1\<lparr>logged := logged s1 @ [Search_failed]\<rparr>, None)
      | Some ix \<Rightarrow>
          if ntotal ix = 0
          then (s1\<lparr>logged := logged s1 @ [No_resumes_in_index]\<rparr>, Some no_results)
          else
            (let query_array = map (float32 nm) query_embedding in
             case index_search nm ix query_array (min n_results (int (ntotal ix))) of
               None \<Rightarrow> (s1\<lparr>logged := logged s1 @ [Search_failed]\<rparr>, None)
             | Some hits \<Rightarrow>
                 (s1, Some (fold (add_hit (index_to_id (id_to_index s1)) (metadata s1))
                              hits no_results))))"

text \<open>
  The loop of the rebuild: \<^verbatim>\<open>new_id_to_index[resume_id] = idx\<close> for every entry of
  \<^verbatim>\<open>enumerate(_metadata.items())\<close>. The new index is created empty and nothing is added
  to it (the source's comment: "We need to store embeddings in metadata. For now, we'll
  just rebuild the mapping").
\<close>

definition enumerate_ids :: "(string \<times> resume_data) list \<Rightarrow> (string \<times> nat) list" where
  "enumerate_ids m =
     fold (\<lambda>(idx, (resume_id, rd)) acc. AList.update resume_id idx acc) (enumerate 0 m) []"

definition rebuild_index :: "write_outcome \<times> write_outcome \<Rightarrow> 'f service \<Rightarrow> 'f service" where
  "rebuild_index io s =
     (let new_index = IndexFlatL2 384;
          new_id_to_index = enumerate_ids (metadata s);
          s1 = s\<lparr>index := Some new_index, id_to_index := new_id_to_index\<rparr>
      in save_metadata (snd io) (save_index (fst io) s1))"

definition delete_resume ::
  "write_outcome \<times> write_outcome \<Rightarrow> 'f service \<Rightarrow> string \<Rightarrow> 'f service \<times> bool" where
  "delete_resume io s resume_id =
     (if resume_id \<notin> fst ` set (metadata s)
      then (s\<lparr>logged := logged s @ [Resume_not_found]\<rparr>, False)
      else
        (let s1 = s\<lparr>metadata := AList.delete resume_id (metadata s)\<rparr> in
         if resume_id \<notin> fst ` set (id_to_index s1)
         then (s1\<lparr>logged := logged s1 @ [Failed_to_delete_resume]\<rparr>, False)
         else
           (rebuild_index io
              (s1\<lparr>id_to_index := AList.delete resume_id (id_to_index s1)\<rparr>), True)))"

record stats =
  total_items :: nat
  dimension :: nat
  index_type :: string

definition get_collection_stats :: "'f service \<Rightarrow> 'f service \<times> stats" where
  "get_collection_stats s =
     (let s1 = ensure_index s in
      case index s1 of
        None \<Rightarrow> (s1, \<lparr>total_items = 0, dimension = 0, index_type = []\<rparr>)
      | Some ix \<Rightarrow>
          (s1, \<lparr>total_items = ntotal ix, dimension = 384, index_type = ''IndexFlatL2''\<rparr>))"

definition clear_collection :: "write_outcome \<times> write_outcome \<Rightarrow> 'f service \<Rightarrow> 'f service \<times> bool"
  where
  "clear_collection io s =
     (let s1 = s\<lparr>index := Some (IndexFlatL2 384), metadata := [], id_to_index := []\<rparr>
      in (save_metadata (snd io) (save_index (fst io) s1), True))"

definition list_all_resumes :: "'f service \<Rightarrow> string list" where
  "list_all_resumes s = map fst (metadata s)"

subsection \<open>The consistency of the three stores\<close>

text \<open>
  Every id of the metadata store is bound to a position by the id-to-position map, and
  that position is an occupied slot of the vector store.
\<close>

definition consistent :: "'f service \<Rightarrow> bool" where
  "consistent s =
     list_all
       (\<lambda>resume_id.
          case map_of (id_to_index s) resume_id of
            None \<Rightarrow> False
          | Some p \<Rightarrow> (case index s of None \<Rightarrow> False | Some ix \<Rightarrow> p < ntotal ix))
       (map fst (metadata s))"

subsection \<open>The order of the hits\<close>

text \<open>
  Position \<open>p\<close> comes before position \<open>p'\<close>: both have a reported distance to the query,
  and that of \<open>p\<close> is smaller, or they are equal and \<open>p\<close> is the lower position.
\<close>

definition nearer :: "'f numerics \<Rightarrow> 'f flat_index \<Rightarrow> 'f list \<Rightarrow> nat \<Rightarrow> nat \<Rightarrow> bool" where
  "nearer nm ix q p p' =
     (case fvec_L2sqr nm q (idx_xb ix ! p) of
        None \<Rightarrow> False
      | Some d \<Rightarrow>
          (case fvec_L2sqr nm q (idx_xb ix ! p') of
             None \<Rightarrow> False
           | Some d' \<Rightarrow> d < d' \<or> (d = d' \<and> p < p')))"

subsection \<open>Example states\<close>

text \<open>
  The two unit vectors of the specification's example, of dimension 384, and the numerics
  of the example states. Their components are 0 and 1 only: 32-bit floats hold them as
  they are, and the library's sum of their squared differences (0, 1 or 2) is exact. So
  \<open>exact\<close>, which neither rounds nor overflows, gives on these states what the cast and
  the library give.
\<close>

definition exact :: "real numerics" where
  "exact = \<lparr>float32 = (\<lambda>x. x), fvec_L2sqr = (\<lambda>q w. Some (l2sqr q w))\<rparr>"

definition e1 :: vec where
  "e1 = 1 # 0 # replicate 382 0"

definition e2 :: vec where
  "e2 = 0 # 1 # replicate 382 0"

definition all_written :: "write_outcome \<times> write_outcome" where
  "all_written = (Written, Written)"

definition one_resume :: "real service" where
  "one_resume = fst (add_resume exact all_written (initialize fresh) ''r1'' ''engineer'' e1 None)"

definition two_resumes :: "real service" where
  "two_resumes = fst (add_resume exact all_written one_resume ''r2'' ''designer'' e2 None)"

definition readded :: "real service" where
  "readded = fst (add_resume exact all_written one_resume ''r1'' ''engineer'' e1 None)"

text \<open>A disk whose two files are unreadable.\<close>

definition corrupt_disk :: "'f service" where
  "corrupt_disk = fresh\<lparr>index_file := Malformed, metadata_file := Malformed\<rparr>"

text \<open>
  A new process after an add whose index write failed and whose metadata write went
  through.
\<close>

definition half_saved :: "real service" where
  "half_saved =
     restart (fst (add_resume exact (Write_failed, Written) (initialize fresh)
                     ''r1'' ''engineer'' e1 None))"

text \<open>
  A metadata file that lacks the key \<^verbatim>\<open>"id_to_index"\<close>, beside no index file.
\<close>

definition unbound_on_disk :: "'f service" where
  "unbound_on_disk =
     fresh\<lparr>metadata_file :=
       Good \<lparr>json_metadata = Some [(''r1'', \<lparr>resume_text = ''engineer'', resume_metadata = []\<rparr>)],
             json_id_to_index = None\<rparr>\<rparr>"

text \<open>
  Two adds, the delete of the second id, and the add of a third: the rebuild has bound
  \<open>r1\<close> to position 0 of an empty store, and the add binds \<open>r3\<close> to position 0 too.
\<close>

definition collided :: "real service" where
  "collided =
     fst (add_resume exact all_written (fst (delete_resume all_written two_resumes ''r2''))
            ''r3'' ''analyst'' e2 None)"

text \<open>What the two save routines log for the outcomes of their writes.\<close>

definition save_failures :: "write_outcome \<times> write_outcome \<Rightarrow> log_event list" where
  "save_failures io =
     (if fst io = Written then [] else [Failed_to_save_index]) @
     (if snd io = Written then [] else [Failed_to_save_metadata])"

section \<open>Properties\<close>

subsection \<open>Distances\<close>

lemma l2sqr_Nil [simp]: "l2sqr [] v = 0" "l2sqr q [] = 0"
  by (simp_all add: l2sqr_def)

lemma l2sqr_Cons [simp]: "l2sqr (a # q) (b # v) = (a - b) * (a - b) + l2sqr q v"
  by (simp add: l2sqr_def)

lemma l2sqr_self [simp]: "l2sqr v v = 0"
  by (induction v) simp_all

lemma exact_numerics [simp]:
  "map (float32 exact) v = v"
  "fvec_L2sqr exact q w = Some (l2sqr q w)"
  by (simp_all add: exact_def)

subsection \<open>What saving and loading leave alone\<close>

lemma index_ensure_index: "\<exists>ix. index (ensure_index s) = Some ix"
  by (cases "index s")
    (auto simp: ensure_index_def initialize_def load_index_def load_metadata_def
      split: artifact.splits)

lemma ensure_index_Some [simp]: "index s = Some ix \<Longrightarrow> ensure_index s = s"
  by (simp add: ensure_index_def)

lemma save_index_fields [simp]:
  "index (save_index w s) = index s"
  "metadata (save_index w s) = metadata s"
  "id_to_index (save_index w s) = id_to_index s"
  "metadata_file (save_index w s) = metadata_file s"
  by (simp_all add: save_index_def split: option.splits write_outcome.splits)

lemma save_metadata_fields [simp]:
  "index (save_metadata w s) = index s"
  "metadata (save_metadata w s) = metadata s"
  "id_to_index (save_metadata w s) = id_to_index s"
  "index_file (save_metadata w s) = index_file s"
  by (simp_all add: save_metadata_def split: write_outcome.splits)

lemma in_memory_saved [simp]:
  "in_memory (save_index w s) = in_memory s"
  "in_memory (save_metadata w s) = in_memory s"
  by (simp_all add: in_memory_def)

lemma rebuild_index_fields [simp]:
  "index (rebuild_index io s) = Some (IndexFlatL2 384)"
  "metadata (rebuild_index io s) = metadata s"
  "id_to_index (rebuild_index io s) = enumerate_ids (metadata s)"
  by (simp_all add: rebuild_index_def Let_def)

lemma ntotal_IndexFlatL2 [simp]: "ntotal (IndexFlatL2 n) = 0"
  by (simp add: ntotal_def IndexFlatL2_def)

subsection \<open>The operations, case by case\<close>

lemma add_resume_Some:
  assumes "index s = Some ix" and "length v = idx_d ix"
  shows "snd (add_resume nm io s rid doc v md) = True"
    and "in_memory (fst (add_resume nm io s rid doc v md)) =
      (Some (ix\<lparr>idx_xb := idx_xb ix @ [map (float32 nm) v]\<rparr>),
       AList.update rid
         \<lparr>resume_text = doc, resume_metadata = (case md of None \<Rightarrow> [] | Some m \<Rightarrow> m)\<rparr>
         (metadata s),
       AList.update rid (ntotal ix) (id_to_index s))"
  using assms by (simp_all add: add_resume_def index_add_def Let_def in_memory_def)

lemma add_resume_mismatch:
  assumes "index s = Some ix" and "length v \<noteq> idx_d ix"
  shows "add_resume nm io s rid doc v md = (s\<lparr>logged := logged s @ [Failed_to_add_resume]\<rparr>, False)"
  using assms by (simp add: add_resume_def index_add_def Let_def)

lemma delete_resume_True:
  assumes "delete_resume io s rid = (s', True)"
  shows "s' = rebuild_index io
      (s\<lparr>metadata := AList.delete rid (metadata s),
         id_to_index := AList.delete rid (id_to_index s)\<rparr>)"
  using assms by (auto simp: delete_resume_def Let_def split: if_splits)

lemma search_empty_index:
  "index s = Some ix \<Longrightarrow> ntotal ix = 0 \<Longrightarrow> snd (search_resumes nm s q k) = Some no_results"
  by (simp add: search_resumes_def)

subsection \<open>Dictionaries\<close>

lemma keys_update: "fst ` set (AList.update k v al) = insert k (fst ` set al)"
  by (simp add: dom_update)

lemma map_fst_update_present:
  "k \<in> fst ` set al \<Longrightarrow> map fst (AList.update k v al) = map fst al"
  by (induction al) auto

lemma update_absent: "k \<notin> fst ` set al \<Longrightarrow> AList.update k v al = al @ [(k, v)]"
  by (induction al) auto

lemma fold_enumerate_keys:
  "fst ` set (fold (\<lambda>(idx, (resume_id, rd)) acc. AList.update resume_id idx acc)
                (enumerate n m) acc) = fst ` set acc \<union> fst ` set m"
proof (induction m arbitrary: n acc)
  case Nil
  show ?case by simp
next
  case (Cons kv m)
  obtain k v where kv: "kv = (k, v)" by (cases kv)
  show ?case
    by (simp add: kv Cons.IH keys_update)
qed

lemma keys_enumerate_ids: "fst ` set (enumerate_ids m) = fst ` set m"
  by (simp add: enumerate_ids_def fold_enumerate_keys)

lemma fold_enumerate_distinct:
  assumes "distinct (map fst m)" and "fst ` set acc \<inter> fst ` set m = {}"
  shows "fold (\<lambda>(idx, (resume_id, rd)) acc. AList.update resume_id idx acc)
           (enumerate n m) acc = acc @ zip (map fst m) [n..<n + length m]"
  using assms
proof (induction m arbitrary: n acc)
  case Nil
  show ?case by simp
next
  case (Cons kv m)
  obtain k v where kv: "kv = (k, v)" by (cases kv)
  from Cons.prems kv have k: "k \<notin> fst ` set acc" and d: "distinct (map fst m)"
    and "k \<notin> fst ` set m" and "fst ` set acc \<inter> fst ` set m = {}"
    by auto
  then have "fst ` set (acc @ [(k, n)]) \<inter> fst ` set m = {}"
    by auto
  moreover have "[n..<n + length (kv # m)] = n # [Suc n..<Suc n + length m]"
    by (subst upt_rec) simp
  ultimately show ?case
    using Cons.IH [OF d, of "acc @ [(k, n)]" "Suc n"] k kv
    by (simp add: update_absent del: upt_Suc)
qed

lemma enumerate_ids_distinct:
  "distinct (map fst m) \<Longrightarrow> enumerate_ids m = zip (map fst m) [0..<length m]"
  using fold_enumerate_distinct [of m "[]" 0] by (simp add: enumerate_ids_def)

subsection \<open>Consistency\<close>

lemma consistent_iff:
  "consistent s \<longleftrightarrow>
     (\<forall>k \<in> set (map fst (metadata s)). \<exists>p ix. map_of (id_to_index s) k = Some p \<and>
         index s = Some ix \<and> p < ntotal ix)"
  unfolding consistent_def list_all_iff
  by (rule ball_cong [OF refl]) (simp split: option.splits)

lemma consistent_cong:
  assumes "in_memory s' = in_memory s"
  shows "consistent s' = consistent s"
proof -
  from assms have "index s' = index s" "metadata s' = metadata s"
    "id_to_index s' = id_to_index s"
    by (simp_all add: in_memory_def)
  then show ?thesis
    by (simp add: consistent_iff)
qed

lemma add_resume_fields:
  assumes "index s = Some ix" and "length v = idx_d ix"
  shows "index (fst (add_resume nm io s rid doc v md)) = Some (ix\<lparr>idx_xb := idx_xb ix @ [map (float32 nm) v]\<rparr>)"
    and "metadata (fst (add_resume nm io s rid doc v md)) =
      AList.update rid
         \<lparr>resume_text = doc, resume_metadata = (case md of None \<Rightarrow> [] | Some m \<Rightarrow> m)\<rparr>
         (metadata s)"
    and "id_to_index (fst (add_resume nm io s rid doc v md)) =
      AList.update rid (ntotal ix) (id_to_index s)"
  using add_resume_Some(2) [OF assms, of nm io rid doc md] by (simp_all add: in_memory_def)

lemma consistent_add_resume:
  assumes "consistent s" and "index s = Some ix"
  shows "consistent (fst (add_resume nm io s rid doc v md))"
proof (cases "length v = idx_d ix")
  case True
  let ?s' = "fst (add_resume nm io s rid doc v md)"
  let ?ix' = "ix\<lparr>idx_xb := idx_xb ix @ [map (float32 nm) v]\<rparr>"
  note f = add_resume_fields [OF assms(2) True, of nm io rid doc md]
  have n: "ntotal ?ix' = Suc (ntotal ix)"
    by (simp add: ntotal_def)
  have "\<exists>p ix'. map_of (id_to_index ?s') k = Some p \<and> index ?s' = Some ix' \<and> p < ntotal ix'"
    if k: "k \<in> set (map fst (metadata ?s'))" for k
  proof (cases "k = rid")
    case True
    then have "map_of (id_to_index ?s') k = Some (ntotal ix)"
      by (simp add: f(3) update_conv')
    then show ?thesis
      using f(1) n by simp
  next
    case False
    with k have "k \<in> set (map fst (metadata s))"
      by (simp add: f(2) keys_update)
    moreover from assms(1) have "\<forall>k \<in> set (map fst (metadata s)). \<exists>p ix.
        map_of (id_to_index s) k = Some p \<and> index s = Some ix \<and> p < ntotal ix"
      by (simp only: consistent_iff)
    ultimately obtain p ix0
      where p: "map_of (id_to_index s) k = Some p" and "index s = Some ix0" and "p < ntotal ix0"
      by blast
    with assms(2) have "p < ntotal ix"
      by simp
    then have "p < ntotal ?ix'"
      by (simp add: n)
    moreover have "map_of (id_to_index ?s') k = Some p"
      using False p by (simp add: f(3) update_conv')
    ultimately show ?thesis
      using f(1) by blast
  qed
  then show ?thesis
    by (simp only: consistent_iff) blast
next
  case False
  have "in_memory (fst (add_resume nm io s rid doc v md)) = in_memory s"
    by (simp add: add_resume_mismatch [OF assms(2) False] in_memory_def)
  from consistent_cong [OF this] assms(1) show ?thesis
    by simp
qed

lemma consistent_clear_collection: "consistent (fst (clear_collection io s))"
  by (simp add: consistent_iff clear_collection_def Let_def)

lemma persist_roundtrip:
  assumes "index s = Some ix"
  shows "in_memory (initialize (restart (save_metadata Written (save_index Written s))))
    = in_memory s"
  using assms
  by (simp add: in_memory_def initialize_def load_index_def load_metadata_def restart_def
      save_index_def save_metadata_def)

lemma delete_resume_absent:
  "rid \<notin> fst ` set (metadata s) \<Longrightarrow>
     delete_resume io s rid = (s\<lparr>logged := logged s @ [Resume_not_found]\<rparr>, False)"
  by (simp add: delete_resume_def)

lemma delete_resume_present:
  assumes "rid \<in> fst ` set (metadata s)" and "rid \<in> fst ` set (id_to_index s)"
  shows "delete_resume io s rid =
     (rebuild_index io
        (s\<lparr>metadata := AList.delete rid (metadata s),
           id_to_index := AList.delete rid (id_to_index s)\<rparr>), True)"
  using assms by (simp add: delete_resume_def Let_def)

subsection \<open>What a failed write changes\<close>

lemma add_resume_io:
  "snd (add_resume nm io s rid doc v md) = snd (add_resume nm io' s rid doc v md)"
  "in_memory (fst (add_resume nm io s rid doc v md)) =
     in_memory (fst (add_resume nm io' s rid doc v md))"
  by (simp_all add: add_resume_def Let_def in_memory_def split: option.splits)

lemma delete_resume_io:
  "snd (delete_resume io s rid) = snd (delete_resume io' s rid)"
  "in_memory (fst (delete_resume io s rid)) = in_memory (fst (delete_resume io' s rid))"
  by (simp_all add: delete_resume_def Let_def in_memory_def)

lemma clear_collection_io:
  "snd (clear_collection io s) = True"
  "in_memory (fst (clear_collection io s)) = (Some (IndexFlatL2 384), [], [])"
  by (simp_all add: clear_collection_def Let_def in_memory_def)

lemma logged_saved:
  "logged (save_metadata w' (save_index w s)) =
     logged s @ (if index s = None \<or> w = Written then [] else [Failed_to_save_index])
              @ (if w' = Written then [] else [Failed_to_save_metadata])"
  by (cases w; cases w'; cases "index s") (simp_all add: save_index_def save_metadata_def)

lemma logged_add_resume:
  "logged (fst (add_resume nm io s rid doc v md)) =
     logged (fst (add_resume nm (Written, Written) s rid doc v md)) @
       (if snd (add_resume nm io s rid doc v md) then save_failures io else [])"
  by (simp add: add_resume_def Let_def logged_saved save_failures_def split: option.splits)

lemma logged_delete_resume:
  "logged (fst (delete_resume io s rid)) =
     logged (fst (delete_resume (Written, Written) s rid)) @
       (if snd (delete_resume io s rid) then save_failures io else [])"
  by (simp add: delete_resume_def rebuild_index_def Let_def logged_saved save_failures_def)

lemma logged_clear_collection:
  "logged (fst (clear_collection io s)) =
     logged (fst (clear_collection (Written, Written) s)) @ save_failures io"
  by (simp add: clear_collection_def Let_def logged_saved save_failures_def)

lemma get_collection_stats_Some [simp]:
  "index s = Some ix \<Longrightarrow>
     get_collection_stats s =
       (s, \<lparr>total_items = ntotal ix, dimension = 384, index_type = ''IndexFlatL2''\<rparr>)"
  by (simp add: get_collection_stats_def)

subsection \<open>Lists\<close>

lemma map_filter_map: "List.map_filter f (map g xs) = List.map_filter (\<lambda>x. f (g x)) xs"
  by (induction xs) (simp_all add: map_filter_simps split: option.splits)

lemma length_map_filter_le: "length (List.map_filter f xs) \<le> length xs"
  by (induction xs) (simp_all add: map_filter_simps split: option.splits)

lemma length_map_filter_all:
  "(\<And>x. x \<in> set xs \<Longrightarrow> f x \<noteq> None) \<Longrightarrow> length (List.map_filter f xs) = length xs"
  by (induction xs) (auto simp: map_filter_simps split: option.splits)

lemma map_filter_Some:
  "(\<And>x. x \<in> set xs \<Longrightarrow> f x = Some (g x)) \<Longrightarrow> List.map_filter f xs = map g xs"
  by (induction xs) (simp_all add: map_filter_simps)

lemma set_map_filter: "set (List.map_filter f xs) = {y. \<exists>x \<in> set xs. f x = Some y}"
  by (induction xs) (auto simp: map_filter_simps split: option.splits)

lemma map_fst_map_filter_enumerate:
  "map fst (List.map_filter (\<lambda>(i, w). map_option (Pair i) (g w)) xs) =
     map fst (filter (\<lambda>(i, w). g w \<noteq> None) xs)"
  by (induction xs) (auto simp: map_filter_simps split: option.splits)

subsection \<open>The ranking\<close>

lemma set_ranking:
  "set (ranking nm ix q) =
     {(i, d) | i d. i < ntotal ix \<and> fvec_L2sqr nm q (idx_xb ix ! i) = Some d}"
proof -
  have "(i, d) \<in> set (ranking nm ix q) \<longleftrightarrow>
      i < ntotal ix \<and> fvec_L2sqr nm q (idx_xb ix ! i) = Some d" for i d
  proof
    assume "(i, d) \<in> set (ranking nm ix q)"
    then show "i < ntotal ix \<and> fvec_L2sqr nm q (idx_xb ix ! i) = Some d"
      by (auto simp: ranking_def ntotal_def set_map_filter in_set_enumerate_eq)
  next
    assume "i < ntotal ix \<and> fvec_L2sqr nm q (idx_xb ix ! i) = Some d"
    then have "(i, idx_xb ix ! i) \<in> set (enumerate 0 (idx_xb ix))"
      and "map_option (Pair i) (fvec_L2sqr nm q (idx_xb ix ! i)) = Some (i, d)"
      by (simp_all add: ntotal_def in_set_enumerate_eq)
    then show "(i, d) \<in> set (ranking nm ix q)"
      by (force simp: ranking_def set_map_filter)
  qed
  then show ?thesis
    by auto
qed

lemma length_map_filter_enumerate:
  "length (List.map_filter (\<lambda>(i, w). map_option (Pair i) (g w)) (enumerate n xs)) =
     length (filter (\<lambda>w. g w \<noteq> None) xs)"
  by (induction xs arbitrary: n) (auto simp: map_filter_simps split: option.splits)

lemma length_ranking:
  "length (ranking nm ix q) = length (filter (\<lambda>w. fvec_L2sqr nm q w \<noteq> None) (idx_xb ix))"
  unfolding ranking_def length_sort by (rule length_map_filter_enumerate)

lemma length_ranking_le: "length (ranking nm ix q) \<le> ntotal ix"
  by (simp add: length_ranking ntotal_def)

lemma length_ranking_all:
  "\<forall>w \<in> set (idx_xb ix). fvec_L2sqr nm q w \<noteq> None \<Longrightarrow> length (ranking nm ix q) = ntotal ix"
  by (simp add: length_ranking ntotal_def)

lemma distinct_map_fst_ranking: "distinct (map fst (ranking nm ix q))"
proof -
  let ?xs = "List.map_filter (\<lambda>(i, w). map_option (Pair i) (fvec_L2sqr nm q w))
      (enumerate 0 (idx_xb ix))"
  have "distinct (map fst ?xs)"
    unfolding map_fst_map_filter_enumerate by (rule distinct_map_filter) simp
  then have "distinct ?xs \<and> inj_on fst (set ?xs)"
    by (simp add: distinct_map)
  then show ?thesis
    by (simp add: ranking_def distinct_map)
qed

lemma sorted_ranking:
  "sorted_wrt (\<lambda>a b. (snd a, fst a) < (snd b, fst b)) (ranking nm ix q)"
proof -
  let ?key = "\<lambda>(i, d). (d :: real, i :: nat)"
  have "inj_on ?key (set (ranking nm ix q))"
    by (auto simp: inj_on_def)
  moreover have "distinct (ranking nm ix q)"
    using distinct_map_fst_ranking [of nm ix q] by (simp add: distinct_map)
  ultimately have "distinct (map ?key (ranking nm ix q))"
    by (simp add: distinct_map)
  moreover have "sorted (map ?key (ranking nm ix q))"
    unfolding ranking_def by (rule sorted_sort_key)
  ultimately have "sorted_wrt (<) (map ?key (ranking nm ix q))"
    by (simp add: strict_sorted_iff)
  then show ?thesis
    by (simp add: sorted_wrt_map case_prod_unfold)
qed

lemma nearest_first:
  assumes "a \<in> set (take n (ranking nm ix q))" and "b \<in> set (drop n (ranking nm ix q))"
  shows "(snd a, fst a) < (snd b, fst b)"
proof -
  have "sorted_wrt (\<lambda>a b. (snd a, fst a) < (snd b, fst b))
      (take n (ranking nm ix q) @ drop n (ranking nm ix q))"
    using sorted_ranking [of nm ix q] by simp
  with assms show ?thesis
    unfolding sorted_wrt_append by blast
qed

subsection \<open>The reversed dictionary and the loop over the hits\<close>

lemma fold_reverse_keys:
  "fst ` set (fold (\<lambda>(k, v) acc. AList.update v k acc) m acc) = fst ` set acc \<union> snd ` set m"
proof (induction m arbitrary: acc)
  case Nil
  show ?case by simp
next
  case (Cons kv m)
  obtain k v where kv: "kv = (k, v)" by (cases kv)
  show ?case
    by (simp add: kv Cons.IH keys_update)
qed

lemma index_to_id_None_iff: "map_of (index_to_id m) p = None \<longleftrightarrow> p \<notin> snd ` set m"
  by (simp add: map_of_eq_None_iff index_to_id_def fold_reverse_keys)

lemma index_to_id_snoc: "index_to_id (m @ [(k, p)]) = AList.update p k (index_to_id m)"
  by (simp add: index_to_id_def)

lemma ids_fold_add_hit:
  "ids (fold (add_hit i2id meta) hits r) =
     ids r @ List.map_filter (\<lambda>h. map_of i2id (fst h)) hits"
  by (induction hits arbitrary: r) (simp_all add: add_hit_def map_filter_simps split: option.splits)

lemma distances_fold_add_hit:
  "distances (fold (add_hit i2id meta) hits r) =
     distances r @ map snd (filter (\<lambda>h. map_of i2id (fst h) \<noteq> None) hits)"
  by (induction hits arbitrary: r) (simp_all add: add_hit_def split: option.splits)

lemma fold_reverse_Some:
  "map_of (fold (\<lambda>(k, v) acc. AList.update v k acc) m acc) p = Some k \<Longrightarrow>
     (k, p) \<in> set m \<or> map_of acc p = Some k"
proof (induction m arbitrary: acc)
  case Nil
  then show ?case by simp
next
  case (Cons kv m)
  obtain k' v' where kv: "kv = (k', v')" by (cases kv)
  from Cons.prems have "(k, p) \<in> set m \<or> map_of (AList.update v' k' acc) p = Some k"
    by (auto simp: kv dest: Cons.IH)
  then show ?case
    by (auto simp: kv update_conv' split: if_splits)
qed

lemma index_to_id_Some: "map_of (index_to_id m) p = Some k \<Longrightarrow> (k, p) \<in> set m"
  using fold_reverse_Some [of m "[]" p k] by (simp add: index_to_id_def)

lemma search_ids_are_bound:
  assumes "snd (search_resumes nm s q k) = Some r"
  shows "set (ids r) \<subseteq> fst ` set (id_to_index (fst (search_resumes nm s q k)))"
proof -
  obtain ix where ix: "index (ensure_index s) = Some ix"
    using index_ensure_index by blast
  show ?thesis
  proof (cases "ntotal ix = 0")
    case True
    with assms ix have "r = no_results"
      by (simp add: search_resumes_def Let_def)
    then show ?thesis
      by (simp add: no_results_def)
  next
    case False
    with assms ix obtain hits where
      r: "r = fold (add_hit (index_to_id (id_to_index (ensure_index s)))
          (metadata (ensure_index s))) hits no_results"
      and s: "fst (search_resumes nm s q k) = ensure_index s"
      by (auto simp: search_resumes_def Let_def split: option.splits)
    show ?thesis
      unfolding r s ids_fold_add_hit
      by (force simp: no_results_def set_map_filter dest: index_to_id_Some)
  qed
qed

lemma search_resumes_hits:
  assumes "index s = Some ix" and "length q = idx_d ix" and "0 < k"
  shows "snd (search_resumes nm s q k) =
     Some (fold (add_hit (index_to_id (id_to_index s)) (metadata s))
             (take (min (nat k) (ntotal ix)) (ranking nm ix (map (float32 nm) q))) no_results)"
proof (cases "ntotal ix = 0")
  case True
  then have "ranking nm ix (map (float32 nm) q) = []"
    using length_ranking_le [of nm ix "map (float32 nm) q"] by simp
  with assms(1) True show ?thesis
    by (simp add: search_resumes_def)
next
  case False
  with assms(3) have "0 < min k (int (ntotal ix))"
    by simp
  moreover have "nat (min k (int (ntotal ix))) = min (nat k) (ntotal ix)"
    by simp
  ultimately show ?thesis
    using assms(1,2) False by (simp add: search_resumes_def index_search_def Let_def)
qed

lemma best_positions:
  fixes nm ix q n
  defines "best \<equiv> map fst (take n (ranking nm ix q))"
  shows "length best = min n (length (ranking nm ix q))"
    and "\<forall>p \<in> set best. p < ntotal ix \<and> fvec_L2sqr nm q (idx_xb ix ! p) \<noteq> None"
    and "sorted_wrt (nearer nm ix q) best"
    and "\<forall>p \<in> set best. \<forall>p' < ntotal ix. p' \<notin> set best \<longrightarrow>
           fvec_L2sqr nm q (idx_xb ix ! p') = None \<or> nearer nm ix q p p'"
    and "map snd (filter (\<lambda>h. P (fst h)) (take n (ranking nm ix q))) =
           List.map_filter (\<lambda>p. fvec_L2sqr nm q (idx_xb ix ! p)) (filter P best)"
proof -
  let ?R = "ranking nm ix q"
  let ?dst = "\<lambda>p. fvec_L2sqr nm q (idx_xb ix ! p)"
  have el: "?dst (fst a) = Some (snd a) \<and> fst a < ntotal ix" if "a \<in> set ?R" for a
    using that by (auto simp: set_ranking)
  have el_take: "?dst (fst a) = Some (snd a) \<and> fst a < ntotal ix"
    if "a \<in> set (take n ?R)" for a
    using that el by (blast dest: in_set_takeD)
  have before: "nearer nm ix q (fst a) (fst b)"
    if "?dst (fst a) = Some (snd a)" and "?dst (fst b) = Some (snd b)"
      and "(snd a, fst a) < (snd b, fst b)" for a b :: "nat \<times> real"
    using that by (auto simp: nearer_def)
  show "length best = min n (length ?R)"
    by (simp add: best_def)
  show "\<forall>p \<in> set best. p < ntotal ix \<and> ?dst p \<noteq> None"
    using el_take by (auto simp: best_def)
  have "sorted_wrt (\<lambda>a b. (snd a, fst a) < (snd b, fst b)) (take n ?R)"
    using sorted_ranking [of nm ix q] by (rule sorted_wrt_take)
  then have "sorted_wrt (\<lambda>a b. nearer nm ix q (fst a) (fst b)) (take n ?R)"
  proof (rule sorted_wrt_mono_rel [rotated])
    fix a b
    assume "a \<in> set (take n ?R)" and "b \<in> set (take n ?R)"
      and "(snd a, fst a) < (snd b, fst b)"
    with el_take [of a] el_take [of b] show "nearer nm ix q (fst a) (fst b)"
      by (blast intro: before)
  qed
  then show "sorted_wrt (nearer nm ix q) best"
    by (simp add: best_def sorted_wrt_map)
  show "\<forall>p \<in> set best. \<forall>p' < ntotal ix. p' \<notin> set best \<longrightarrow>
           ?dst p' = None \<or> nearer nm ix q p p'"
  proof (intro ballI allI impI)
    fix p p'
    assume "p \<in> set best" and p': "p' < ntotal ix" and out: "p' \<notin> set best"
    then obtain a where a: "a \<in> set (take n ?R)" and pa: "p = fst a"
      by (auto simp: best_def)
    show "?dst p' = None \<or> nearer nm ix q p p'"
    proof (cases "?dst p'")
      case None
      then show ?thesis by simp
    next
      case (Some d')
      with p' have "(p', d') \<in> set ?R"
        by (simp add: set_ranking)
      then have "(p', d') \<in> set (take n ?R) \<union> set (drop n ?R)"
        by (simp flip: set_append)
      moreover from out have "(p', d') \<notin> set (take n ?R)"
        by (force simp: best_def)
      ultimately have "(p', d') \<in> set (drop n ?R)"
        by blast
      from nearest_first [OF a this] have "(snd a, fst a) < (snd (p', d'), fst (p', d'))" .
      with el_take [OF a] Some have "nearer nm ix q (fst a) (fst (p', d'))"
        by (intro before) simp_all
      with pa show ?thesis
        by simp
    qed
  qed
  have "List.map_filter (\<lambda>h. ?dst (fst h)) (filter (\<lambda>h. P (fst h)) (take n ?R)) =
      map snd (filter (\<lambda>h. P (fst h)) (take n ?R))"
    using el_take by (intro map_filter_Some) simp
  then show "map snd (filter (\<lambda>h. P (fst h)) (take n ?R)) =
      List.map_filter ?dst (filter P best)"
    by (simp add: best_def filter_map comp_def map_filter_map)
qed

lemma ranking_head:
  assumes self: "fvec_L2sqr nm q q = Some 0"
    and others: "\<forall>w \<in> set (idx_xb ix). \<forall>d. fvec_L2sqr nm q w = Some d \<longrightarrow> 0 < d"
  shows "take 1 (ranking nm (ix\<lparr>idx_xb := idx_xb ix @ [q]\<rparr>) q) = [(ntotal ix, 0)]"
proof -
  let ?ix' = "ix\<lparr>idx_xb := idx_xb ix @ [q]\<rparr>"
  let ?R = "ranking nm ?ix' q"
  let ?N = "ntotal ix"
  have n: "ntotal ?ix' = Suc ?N"
    by (simp add: ntotal_def)
  have last: "(?N, 0) \<in> set ?R"
    using self by (simp add: set_ranking n) (simp add: ntotal_def)
  have far: "(0, ?N) < (snd a, fst a)" if "a \<in> set ?R" and "a \<noteq> (?N, 0)" for a
  proof -
    from that(1) obtain i d where a: "a = (i, d)" and "i < Suc ?N"
      and d: "fvec_L2sqr nm q ((idx_xb ix @ [q]) ! i) = Some d"
      by (auto simp: set_ranking n)
    have "i \<noteq> ?N"
    proof
      assume "i = ?N"
      with d self have "d = 0"
        by (simp add: ntotal_def)
      with a \<open>i = ?N\<close> that(2) show False
        by simp
    qed
    with \<open>i < Suc ?N\<close> have i: "i < ?N"
      by simp
    then have "idx_xb ix ! i \<in> set (idx_xb ix)"
      and "(idx_xb ix @ [q]) ! i = idx_xb ix ! i"
      by (simp_all add: ntotal_def nth_append)
    with others d have "0 < d"
      by auto
    with a show ?thesis
      by simp
  qed
  from last obtain h t where R: "?R = h # t"
    by (cases ?R) simp_all
  have "h = (?N, 0)"
  proof (rule ccontr)
    assume neq: "h \<noteq> (?N, 0)"
    with last R have "(?N, 0) \<in> set t"
      by auto
    moreover have "\<forall>b \<in> set t. (snd h, fst h) < (snd b, fst b)"
      using sorted_ranking [of nm ?ix' q] by (simp add: R)
    ultimately have "(snd h, fst h) < (0, ?N)"
      by force
    moreover have "(0, ?N) < (snd h, fst h)"
      using far [of h] neq by (simp add: R)
    ultimately show False
      by (meson order.asym)
  qed
  with R show ?thesis
    by simp
qed

subsection \<open>The example states, evaluated\<close>

lemma length_e [simp]: "length e1 = 384" "length e2 = 384"
  by (simp_all add: e1_def e2_def)

lemma l2sqr_e [simp]: "l2sqr e1 e2 = 2" "l2sqr e2 e1 = 2"
  by (simp_all add: e1_def e2_def)

lemma in_memory_initialize_fresh:
  "in_memory (initialize fresh) = (Some (IndexFlatL2 384), [], [])"
  by (simp add: in_memory_def initialize_def load_index_def load_metadata_def fresh_def)

lemma initialize_fresh_fields [simp]:
  "index (initialize fresh) = Some (IndexFlatL2 384)"
  "metadata (initialize fresh) = []"
  "id_to_index (initialize fresh) = []"
  by (simp_all add: initialize_def load_index_def load_metadata_def fresh_def)

lemma in_memory_one_resume:
  "in_memory one_resume =
     (Some \<lparr>idx_d = 384, idx_xb = [e1]\<rparr>,
      [(''r1'', \<lparr>resume_text = ''engineer'', resume_metadata = []\<rparr>)], [(''r1'', 0)])"
  unfolding one_resume_def
  by (subst add_resume_Some(2) [where ix = "IndexFlatL2 384"])
     (simp_all add: IndexFlatL2_def ntotal_def)

lemma one_resume_fields [simp]:
  "index one_resume = Some \<lparr>idx_d = 384, idx_xb = [e1]\<rparr>"
  "metadata one_resume = [(''r1'', \<lparr>resume_text = ''engineer'', resume_metadata = []\<rparr>)]"
  "id_to_index one_resume = [(''r1'', 0)]"
  using in_memory_one_resume by (simp_all add: in_memory_def)

lemma in_memory_two_resumes:
  "in_memory two_resumes =
     (Some \<lparr>idx_d = 384, idx_xb = [e1, e2]\<rparr>,
      [(''r1'', \<lparr>resume_text = ''engineer'', resume_metadata = []\<rparr>),
       (''r2'', \<lparr>resume_text = ''designer'', resume_metadata = []\<rparr>)],
      [(''r1'', 0), (''r2'', 1)])"
  unfolding two_resumes_def
  by (subst add_resume_Some(2) [where ix = "\<lparr>idx_d = 384, idx_xb = [e1]\<rparr>"])
     (simp_all add: ntotal_def)

lemma two_resumes_fields [simp]:
  "index two_resumes = Some \<lparr>idx_d = 384, idx_xb = [e1, e2]\<rparr>"
  "metadata two_resumes =
     [(''r1'', \<lparr>resume_text = ''engineer'', resume_metadata = []\<rparr>),
      (''r2'', \<lparr>resume_text = ''designer'', resume_metadata = []\<rparr>)]"
  "id_to_index two_resumes = [(''r1'', 0), (''r2'', 1)]"
  using in_memory_two_resumes by (simp_all add: in_memory_def)

lemma delete_r2:
  "delete_resume io two_resumes ''r2'' =
     (rebuild_index io
        (two_resumes\<lparr>metadata := AList.delete ''r2'' (metadata two_resumes),
                      id_to_index := AList.delete ''r2'' (id_to_index two_resumes)\<rparr>), True)"
  by (simp add: delete_resume_def Let_def)

lemma after_delete_r2 [simp]:
  "index (fst (delete_resume io two_resumes ''r2'')) = Some (IndexFlatL2 384)"
  "metadata (fst (delete_resume io two_resumes ''r2'')) =
     [(''r1'', \<lparr>resume_text = ''engineer'', resume_metadata = []\<rparr>)]"
  "id_to_index (fst (delete_resume io two_resumes ''r2'')) = [(''r1'', 0)]"
  by (simp_all add: delete_r2 enumerate_ids_def)

lemma search_two_resumes:
  "snd (search_resumes exact two_resumes e1 1) =
     Some \<lparr>ids = [''r1''], distances = [0], documents = [''engineer''], metadatas = [[]]\<rparr>"
  by (simp add: search_resumes_def ntotal_def index_search_def ranking_def enumerate_eq_zip
       index_to_id_def add_hit_def no_results_def upt_rec)

lemma collided_fields [simp]:
  "index collided = Some \<lparr>idx_d = 384, idx_xb = [e2]\<rparr>"
  "metadata collided =
     [(''r1'', \<lparr>resume_text = ''engineer'', resume_metadata = []\<rparr>),
      (''r3'', \<lparr>resume_text = ''analyst'', resume_metadata = []\<rparr>)]"
  "id_to_index collided = [(''r1'', 0), (''r3'', 0)]"
  unfolding collided_def
  by (simp_all add: add_resume_fields [where ix = "IndexFlatL2 384"] IndexFlatL2_def ntotal_def)

lemma readded_fields [simp]:
  "index readded = Some \<lparr>idx_d = 384, idx_xb = [e1, e1]\<rparr>"
  "metadata readded = [(''r1'', \<lparr>resume_text = ''engineer'', resume_metadata = []\<rparr>)]"
  "id_to_index readded = [(''r1'', 1)]"
  unfolding readded_def
  by (simp_all add: add_resume_fields [where ix = "\<lparr>idx_d = 384, idx_xb = [e1]\<rparr>"] ntotal_def)

section \<open>The claims\<close>

text \<open>
  C1. The claim: a successful delete lowers the count of \<^const>\<open>get_collection_stats\<close> by
  one and every remaining id still finds its own vector at the same distance. The code at
  the state holding \<open>r1\<close> and \<open>r2\<close>: the count is 2 and a search for the vector of \<open>r1\<close>
  returns \<open>r1\<close> at distance 0; after the delete of \<open>r2\<close> the id \<open>r1\<close> is still listed, the
  count is 0 and the same search returns nothing.
\<close>

theorem delete_drops_the_vectors:
  "total_items (snd (get_collection_stats two_resumes)) = 2 \<and>
   snd (search_resumes exact two_resumes e1 1) =
     Some \<lparr>ids = [''r1''], distances = [0], documents = [''engineer''], metadatas = [[]]\<rparr> \<and>
   snd (delete_resume all_written two_resumes ''r2'') = True \<and>
   list_all_resumes (fst (delete_resume all_written two_resumes ''r2'')) = [''r1''] \<and>
   total_items (snd (get_collection_stats (fst (delete_resume all_written two_resumes ''r2''))))
     = 0 \<and>
   snd (search_resumes exact (fst (delete_resume all_written two_resumes ''r2'')) e1 1) =
     Some no_results"
proof -
  have "snd (search_resumes exact (fst (delete_resume all_written two_resumes ''r2'')) e1 1) =
     Some no_results"
    by (rule search_empty_index [where ix = "IndexFlatL2 384"]) simp_all
  moreover have "snd (delete_resume all_written two_resumes ''r2'') = True"
    by (simp add: delete_r2)
  ultimately show ?thesis
    by (simp add: search_two_resumes list_all_resumes_def ntotal_def IndexFlatL2_def)
qed

text \<open>
  C2, as stated, fails: a new process that initializes from the files left by an add whose
  index write failed holds an id bound to position 0 of an empty vector store.
\<close>

theorem restart_after_failed_index_write_is_inconsistent:
  "consistent half_saved \<and> \<not> consistent (initialize half_saved)"
  by (simp add: consistent_iff initialize_def load_index_def load_metadata_def
      fresh_def half_saved_def restart_def add_resume_def Let_def ensure_index_def
      index_add_def IndexFlatL2_def save_index_def save_metadata_def ntotal_def)

text \<open>
  C2, amended. On a service whose index is loaded and whose stores are consistent, add
  leaves them consistent (whether it succeeds or rejects the vector), clear leaves them
  consistent, a delete that reports the id as not found leaves them consistent, and
  initialize in a new process restores a consistent state from artifacts that were both
  written from one.
\<close>

theorem consistency_kept:
  assumes "consistent s" and "index s = Some ix"
  shows "consistent (fst (add_resume nm io s rid doc v md)) \<and>
         consistent (fst (clear_collection io s)) \<and>
         consistent (initialize (restart (save_metadata Written (save_index Written s)))) \<and>
         (rid \<notin> fst ` set (metadata s) \<longrightarrow> consistent (fst (delete_resume io s rid)))"
proof -
  have "consistent (initialize (restart (save_metadata Written (save_index Written s))))"
    using assms(1) consistent_cong [OF persist_roundtrip [OF assms(2)]] by simp
  moreover have "consistent (fst (delete_resume io s rid))"
    if "rid \<notin> fst ` set (metadata s)"
    using assms(1) by (simp add: delete_resume_absent [OF that] consistent_iff)
  ultimately show ?thesis
    using consistent_add_resume [OF assms] consistent_clear_collection by blast
qed

theorem consistency_kept_witness:
  "consistent one_resume \<and> index one_resume = Some \<lparr>idx_d = 384, idx_xb = [e1]\<rparr> \<and>
   consistent (fst (add_resume exact all_written one_resume ''r2'' ''designer'' e2 None)) \<and>
   consistent (fst (clear_collection all_written one_resume)) \<and>
   consistent (initialize (restart (save_metadata Written (save_index Written one_resume)))) \<and>
   ''r2'' \<notin> fst ` set (metadata one_resume) \<and>
   consistent (fst (delete_resume all_written one_resume ''r2''))"
proof -
  have c: "consistent one_resume"
    by (simp add: consistent_iff ntotal_def)
  have i: "index one_resume = Some \<lparr>idx_d = 384, idx_xb = [e1]\<rparr>"
    by simp
  have r: "''r2'' \<notin> fst ` set (metadata one_resume)"
    by simp
  from consistency_kept [OF c i, of exact all_written "''r2''" "''designer''" e2 None] c i r
  show ?thesis
    by blast
qed

text \<open>
  C3, as stated, fails: a second add of the id \<open>r1\<close> returns \<open>True\<close> and changes all
  three stores.
\<close>

theorem second_add_of_an_id_succeeds:
  "snd (add_resume exact all_written one_resume ''r1'' ''manager'' e2 None) = True \<and>
   in_memory (fst (add_resume exact all_written one_resume ''r1'' ''manager'' e2 None)) =
     (Some \<lparr>idx_d = 384, idx_xb = [e1, e2]\<rparr>,
      [(''r1'', \<lparr>resume_text = ''manager'', resume_metadata = []\<rparr>)], [(''r1'', 1)])"
  using add_resume_Some [where s = one_resume and v = e2 and io = all_written
      and rid = "''r1''" and doc = "''manager''" and md = None]
  by (simp add: ntotal_def)

text \<open>
  C3, amended. Add has no check for an id that is already present: on a loaded index, with
  a vector of the index's dimension, it returns \<open>True\<close>, appends the vector, replaces the
  record stored under the id and binds the id to the position of the appended vector; the
  state is not the state before the call.
\<close>

theorem add_has_no_duplicate_check:
  assumes "rid \<in> fst ` set (metadata s)" and "index s = Some ix" and "length v = idx_d ix"
  shows "snd (add_resume nm io s rid doc v md) = True \<and>
     in_memory (fst (add_resume nm io s rid doc v md)) =
       (Some (ix\<lparr>idx_xb := idx_xb ix @ [map (float32 nm) v]\<rparr>),
        AList.update rid
          \<lparr>resume_text = doc, resume_metadata = (case md of None \<Rightarrow> [] | Some m \<Rightarrow> m)\<rparr>
          (metadata s),
        AList.update rid (ntotal ix) (id_to_index s)) \<and>
     in_memory (fst (add_resume nm io s rid doc v md)) \<noteq> in_memory s"
proof -
  have "ix\<lparr>idx_xb := idx_xb ix @ [map (float32 nm) v]\<rparr> \<noteq> ix"
  proof
    assume "ix\<lparr>idx_xb := idx_xb ix @ [map (float32 nm) v]\<rparr> = ix"
    then have "idx_xb (ix\<lparr>idx_xb := idx_xb ix @ [map (float32 nm) v]\<rparr>) = idx_xb ix" by simp
    then show False by simp
  qed
  then show ?thesis
    using add_resume_Some [OF assms(2,3), of nm io rid doc md] assms(2)
    by (simp add: in_memory_def)
qed

theorem add_has_no_duplicate_check_witness:
  "''r1'' \<in> fst ` set (metadata one_resume) \<and>
   index one_resume = Some \<lparr>idx_d = 384, idx_xb = [e1]\<rparr> \<and>
   length e2 = idx_d \<lparr>idx_d = 384, idx_xb = [e1]\<rparr> \<and>
   snd (add_resume exact all_written one_resume ''r1'' ''manager'' e2 None) = True \<and>
   in_memory (fst (add_resume exact all_written one_resume ''r1'' ''manager'' e2 None)) \<noteq>
     in_memory one_resume"
proof -
  have h: "''r1'' \<in> fst ` set (metadata one_resume)"
    "index one_resume = Some \<lparr>idx_d = 384, idx_xb = [e1]\<rparr>"
    "length e2 = idx_d \<lparr>idx_d = 384, idx_xb = [e1]\<rparr>"
    by simp_all
  from add_has_no_duplicate_check [OF h, of exact all_written "''manager''" None] h
  show ?thesis by blast
qed

text \<open>
  C4, as stated, fails: after a second add of \<open>r1\<close> the store counts two vectors, and a
  search for two hits returns one, the position that has lost its id being skipped.
\<close>

theorem unbound_position_is_skipped:
  "total_items (snd (get_collection_stats readded)) = 2 \<and>
   map_option ids (snd (search_resumes exact readded e1 2)) = Some [''r1'']"
  by (simp add: search_resumes_def ntotal_def index_search_def ranking_def enumerate_eq_zip
       index_to_id_def add_hit_def no_results_def upt_rec map_filter_simps)

text \<open>
  C4, amended. On a loaded index, a search on an empty store returns the empty result for
  every query and every \<open>k\<close>. For a query of the index's dimension and a positive \<open>k\<close>,
  the search succeeds. The distances are the ones the library computes to the query as
  cast to 32-bit floats, and a position whose computed distance has overflowed or is not a
  number is not reported. With \<open>best\<close> the first \<open>k\<close> reported positions, in ascending
  order of distance, ties by ascending position (all of them when there are fewer than
  \<open>k\<close>), the hits are the ids bound to the positions of \<open>best\<close>, in that order, with
  their distances; a position that the reversed id-to-position map does not know is
  skipped. So the search returns at most \<open>min k count\<close> hits, by ascending distance, and
  exactly \<open>min k count\<close> when every position of the store has an id bound to it and a
  reported distance.
\<close>

theorem search_returns_bound_nearest:
  assumes "index s = Some ix"
  shows "(ntotal ix = 0 \<longrightarrow> snd (search_resumes nm s q k) = Some no_results) \<and>
    (length q = idx_d ix \<and> 0 < k \<longrightarrow>
      (\<exists>r best.
         snd (search_resumes nm s q k) = Some r \<and>
         length best =
           min (nat k)
             (length (filter (\<lambda>w. fvec_L2sqr nm (map (float32 nm) q) w \<noteq> None) (idx_xb ix))) \<and>
         (\<forall>p \<in> set best. p < ntotal ix \<and>
            fvec_L2sqr nm (map (float32 nm) q) (idx_xb ix ! p) \<noteq> None) \<and>
         sorted_wrt (nearer nm ix (map (float32 nm) q)) best \<and>
         (\<forall>p \<in> set best. \<forall>p' < ntotal ix. p' \<notin> set best \<longrightarrow>
            fvec_L2sqr nm (map (float32 nm) q) (idx_xb ix ! p') = None \<or>
            nearer nm ix (map (float32 nm) q) p p') \<and>
         ids r = List.map_filter (map_of (index_to_id (id_to_index s))) best \<and>
         distances r =
           List.map_filter (\<lambda>p. fvec_L2sqr nm (map (float32 nm) q) (idx_xb ix ! p))
             (filter (\<lambda>p. map_of (index_to_id (id_to_index s)) p \<noteq> None) best) \<and>
         length (ids r) \<le> min (nat k) (ntotal ix) \<and>
         sorted (distances r) \<and>
         ({..<ntotal ix} \<subseteq> snd ` set (id_to_index s) \<and>
          (\<forall>w \<in> set (idx_xb ix). fvec_L2sqr nm (map (float32 nm) q) w \<noteq> None) \<longrightarrow>
            length (ids r) = min (nat k) (ntotal ix))))"
proof (intro conjI impI)
  assume "ntotal ix = 0"
  with assms show "snd (search_resumes nm s q k) = Some no_results"
    by (rule search_empty_index)
next
  assume "length q = idx_d ix \<and> 0 < k"
  then have q: "length q = idx_d ix" and k: "0 < k"
    by simp_all
  let ?q = "map (float32 nm) q"
  let ?R = "ranking nm ix ?q"
  let ?n = "min (nat k) (ntotal ix)"
  let ?i2id = "index_to_id (id_to_index s)"
  let ?hits = "take ?n ?R"
  let ?best = "map fst ?hits"
  let ?dst = "\<lambda>p. fvec_L2sqr nm ?q (idx_xb ix ! p)"
  let ?r = "fold (add_hit ?i2id (metadata s)) ?hits no_results"
  note t = best_positions [where n = ?n and nm = nm and ix = ix and q = ?q]
  have r: "snd (search_resumes nm s q k) = Some ?r"
    using assms q k by (rule search_resumes_hits)
  have "length ?best = min ?n (length ?R)"
    by (rule t(1))
  also have "\<dots> = min (nat k) (length ?R)"
    using length_ranking_le [of nm ix ?q] by (auto simp: min_def)
  finally have "length ?best = min (nat k) (length ?R)" .
  then have len: "length ?best =
      min (nat k) (length (filter (\<lambda>w. fvec_L2sqr nm ?q w \<noteq> None) (idx_xb ix)))"
    by (simp only: length_ranking)
  have i: "ids ?r = List.map_filter (map_of ?i2id) ?best"
    by (simp add: ids_fold_add_hit map_filter_map no_results_def)
  have ds: "distances ?r = map snd (filter (\<lambda>h. map_of ?i2id (fst h) \<noteq> None) ?hits)"
    unfolding distances_fold_add_hit by (simp add: no_results_def)
  also have "\<dots> = List.map_filter ?dst (filter (\<lambda>p. map_of ?i2id p \<noteq> None) ?best)"
    by (rule t(5))
  finally have d: "distances ?r =
      List.map_filter ?dst (filter (\<lambda>p. map_of ?i2id p \<noteq> None) ?best)" .
  have l: "length (ids ?r) \<le> ?n"
    unfolding i using length_map_filter_le [of "map_of ?i2id" ?best] by simp
  have "sorted_wrt (\<lambda>a b. (snd a, fst a) < (snd b, fst b)) ?hits"
    using sorted_ranking [of nm ix ?q] by (rule sorted_wrt_take)
  then have "sorted_wrt (\<lambda>a b. snd a \<le> snd b) ?hits"
    by (rule sorted_wrt_mono_rel [rotated]) auto
  then have "sorted_wrt (\<lambda>a b. snd a \<le> snd b)
      (filter (\<lambda>h. map_of ?i2id (fst h) \<noteq> None) ?hits)"
    by (rule sorted_wrt_filter)
  then have so: "sorted (distances ?r)"
    unfolding ds by (simp add: sorted_map)
  have full: "{..<ntotal ix} \<subseteq> snd ` set (id_to_index s) \<and>
      (\<forall>w \<in> set (idx_xb ix). fvec_L2sqr nm ?q w \<noteq> None) \<longrightarrow> length (ids ?r) = ?n"
  proof
    assume a: "{..<ntotal ix} \<subseteq> snd ` set (id_to_index s) \<and>
      (\<forall>w \<in> set (idx_xb ix). fvec_L2sqr nm ?q w \<noteq> None)"
    have "map_of ?i2id p \<noteq> None" if "p \<in> set ?best" for p
    proof -
      from that t(2) have "p < ntotal ix" by blast
      with a show ?thesis
        by (auto simp: index_to_id_None_iff)
    qed
    then have "length (List.map_filter (map_of ?i2id) ?best) = length ?best"
      by (rule length_map_filter_all)
    moreover from a have "length ?R = ntotal ix"
      by (simp add: length_ranking_all)
    ultimately show "length (ids ?r) = ?n"
      by (simp add: i)
  qed
  show "\<exists>r best.
         snd (search_resumes nm s q k) = Some r \<and>
         length best =
           min (nat k)
             (length (filter (\<lambda>w. fvec_L2sqr nm (map (float32 nm) q) w \<noteq> None) (idx_xb ix))) \<and>
         (\<forall>p \<in> set best. p < ntotal ix \<and>
            fvec_L2sqr nm (map (float32 nm) q) (idx_xb ix ! p) \<noteq> None) \<and>
         sorted_wrt (nearer nm ix (map (float32 nm) q)) best \<and>
         (\<forall>p \<in> set best. \<forall>p' < ntotal ix. p' \<notin> set best \<longrightarrow>
            fvec_L2sqr nm (map (float32 nm) q) (idx_xb ix ! p') = None \<or>
            nearer nm ix (map (float32 nm) q) p p') \<and>
         ids r = List.map_filter (map_of (index_to_id (id_to_index s))) best \<and>
         distances r =
           List.map_filter (\<lambda>p. fvec_L2sqr nm (map (float32 nm) q) (idx_xb ix ! p))
             (filter (\<lambda>p. map_of (index_to_id (id_to_index s)) p \<noteq> None) best) \<and>
         length (ids r) \<le> min (nat k) (ntotal ix) \<and>
         sorted (distances r) \<and>
         ({..<ntotal ix} \<subseteq> snd ` set (id_to_index s) \<and>
          (\<forall>w \<in> set (idx_xb ix). fvec_L2sqr nm (map (float32 nm) q) w \<noteq> None) \<longrightarrow>
            length (ids r) = min (nat k) (ntotal ix))"
    by (intro exI [of _ ?r] exI [of _ ?best] conjI r len t(2) t(3) t(4) i d l so full)
qed

theorem search_returns_bound_nearest_witness:
  "index two_resumes = Some \<lparr>idx_d = 384, idx_xb = [e1, e2]\<rparr> \<and>
   length e1 = idx_d \<lparr>idx_d = 384, idx_xb = [e1, e2]\<rparr> \<and>
   (0::int) < 2 \<and>
   {..<ntotal \<lparr>idx_d = 384, idx_xb = [e1, e2]\<rparr>} \<subseteq> snd ` set (id_to_index two_resumes) \<and>
   fvec_L2sqr exact (map (float32 exact) e1) e1 \<noteq> None \<and>
   fvec_L2sqr exact (map (float32 exact) e1) e2 \<noteq> None \<and>
   (\<exists>r. snd (search_resumes exact two_resumes e1 2) = Some r \<and> length (ids r) = 2 \<and>
        sorted (distances r)) \<and>
   index (initialize (fresh :: real service)) = Some (IndexFlatL2 384) \<and>
   ntotal (IndexFlatL2 384 :: real flat_index) = 0 \<and>
   snd (search_resumes exact (initialize fresh) e1 2) = Some no_results"
proof -
  let ?ix = "\<lparr>idx_d = 384, idx_xb = [e1, e2]\<rparr>"
  have i: "index two_resumes = Some ?ix"
    by simp
  have h: "length e1 = idx_d ?ix \<and> (0::int) < 2"
    by simp
  have n: "ntotal ?ix = 2"
    by (simp add: ntotal_def)
  have b: "{..<ntotal ?ix} \<subseteq> snd ` set (id_to_index two_resumes)"
    by (auto simp: n less_Suc_eq numeral_2_eq_2)
  have a: "\<forall>w \<in> set (idx_xb ?ix). fvec_L2sqr exact (map (float32 exact) e1) w \<noteq> None"
    by simp
  have j: "index (initialize (fresh :: real service)) = Some (IndexFlatL2 384)"
    by simp
  from search_returns_bound_nearest [OF i, of exact e1 2] h b a n
  have "\<exists>r. snd (search_resumes exact two_resumes e1 2) = Some r \<and> length (ids r) = 2 \<and>
        sorted (distances r)"
    by auto
  moreover from search_returns_bound_nearest [OF j, of exact e1 2]
  have "snd (search_resumes exact (initialize fresh) e1 2) = Some no_results"
    by simp
  ultimately show ?thesis
    using i h b j by simp
qed

text \<open>
  C5. After a successful delete of an id, the id-to-position map no longer binds the id,
  and a search returns a result, for every query and every \<open>k\<close>, with the deleted id not
  among its hits. (A search returns bound ids only: \<open>search_ids_are_bound\<close>.)
\<close>

theorem deleted_id_not_found:
  assumes "delete_resume io s rid = (s', True)"
  shows "rid \<notin> fst ` set (id_to_index s') \<and>
     (\<exists>r. snd (search_resumes nm s' q k) = Some r \<and> rid \<notin> set (ids r))"
proof -
  note s' = delete_resume_True [OF assms]
  have "fst ` set (id_to_index s') = fst ` set (AList.delete rid (metadata s))"
    by (simp add: s' keys_enumerate_ids)
  then have "rid \<notin> fst ` set (id_to_index s')"
    by (simp add: delete_notin_dom)
  moreover have "index s' = Some (IndexFlatL2 384)"
    by (simp add: s')
  then have "snd (search_resumes nm s' q k) = Some no_results"
    by (rule search_empty_index) simp
  ultimately show ?thesis
    by (simp add: no_results_def)
qed

theorem deleted_id_not_found_witness:
  "snd (delete_resume all_written two_resumes ''r2'') = True \<and>
   ''r2'' \<notin> fst ` set (id_to_index (fst (delete_resume all_written two_resumes ''r2''))) \<and>
   (\<exists>r. snd (search_resumes exact (fst (delete_resume all_written two_resumes ''r2'')) e1 1) = Some r
        \<and> ''r2'' \<notin> set (ids r))"
proof -
  have d: "delete_resume all_written two_resumes ''r2'' =
      (fst (delete_resume all_written two_resumes ''r2''), True)"
    by (simp add: delete_r2)
  have "snd (delete_resume all_written two_resumes ''r2'') = True"
    by (simp add: delete_r2)
  with deleted_id_not_found [OF d, of exact e1 1] show ?thesis
    by (rule conjI [rotated])
qed

text \<open>
  C6, as stated, fails: \<open>r2\<close> added with the vector that \<open>r1\<close> already has is not the
  top hit of the search for that vector; the equal vector at the lower position is.
\<close>

theorem equal_vector_at_lower_position_wins:
  "snd (add_resume exact all_written one_resume ''r2'' ''designer'' e1 None) = True \<and>
   snd (search_resumes exact
          (fst (add_resume exact all_written one_resume ''r2'' ''designer'' e1 None)) e1 1) =
     Some \<lparr>ids = [''r1''], distances = [0], documents = [''engineer''], metadatas = [[]]\<rparr>"
proof -
  let ?s = "fst (add_resume exact all_written one_resume ''r2'' ''designer'' e1 None)"
  note f = add_resume_fields [where s = one_resume and ix = "\<lparr>idx_d = 384, idx_xb = [e1]\<rparr>"
      and v = e1 and nm = exact and io = all_written and rid = "''r2''" and doc = "''designer''"
      and md = None]
  have "index ?s = Some \<lparr>idx_d = 384, idx_xb = [e1, e1]\<rparr>"
    and "id_to_index ?s = [(''r1'', 0), (''r2'', 1)]"
    and "metadata ?s = [(''r1'', \<lparr>resume_text = ''engineer'', resume_metadata = []\<rparr>),
       (''r2'', \<lparr>resume_text = ''designer'', resume_metadata = []\<rparr>)]"
    by (simp_all add: f ntotal_def)
  then have "snd (search_resumes exact ?s e1 1) =
     Some \<lparr>ids = [''r1''], distances = [0], documents = [''engineer''], metadatas = [[]]\<rparr>"
    by (simp add: search_resumes_def ntotal_def index_search_def ranking_def enumerate_eq_zip
       index_to_id_def add_hit_def no_results_def upt_rec map_filter_simps)
  moreover have "snd (add_resume exact all_written one_resume ''r2'' ''designer'' e1 None) = True"
    by (simp add: add_resume_Some(1) [where ix = "\<lparr>idx_d = 384, idx_xb = [e1]\<rparr>"])
  ultimately show ?thesis
    by simp
qed

text \<open>
  C6, amended. On a loaded index, take a vector \<open>v\<close> of the index's dimension and an id
  that the id-to-position map does not bind. If the distance that the library computes
  from \<open>v\<close>, cast to 32-bit floats, to itself is 0 (no component of \<open>v\<close> overflows in the
  cast) and the distance it reports from \<open>v\<close> to every vector stored before is greater
  than 0 (no stored vector is the 32-bit form of \<open>v\<close>, or so close to it that the computed
  distance is 0), then add returns \<open>True\<close> and the search for \<open>v\<close> with \<open>k = 1\<close> that
  follows returns that id as its single hit, at distance 0, with the text and attributes
  just stored.
\<close>

theorem add_then_search_finds_the_id:
  assumes "index s = Some ix" and "length v = idx_d ix"
    and "rid \<notin> fst ` set (id_to_index s)"
    and "fvec_L2sqr nm (map (float32 nm) v) (map (float32 nm) v) = Some 0"
    and "\<forall>w \<in> set (idx_xb ix). \<forall>d. fvec_L2sqr nm (map (float32 nm) v) w = Some d \<longrightarrow> 0 < d"
  shows "snd (add_resume nm io s rid doc v md) = True \<and>
     snd (search_resumes nm (fst (add_resume nm io s rid doc v md)) v 1) =
       Some \<lparr>ids = [rid], distances = [0], documents = [doc],
             metadatas = [case md of None \<Rightarrow> [] | Some m \<Rightarrow> m]\<rparr>"
proof -
  let ?s' = "fst (add_resume nm io s rid doc v md)"
  let ?q = "map (float32 nm) v"
  let ?ix' = "ix\<lparr>idx_xb := idx_xb ix @ [?q]\<rparr>"
  note f = add_resume_fields [OF assms(1,2), of nm io rid doc md]
  have "length v = idx_d ?ix'"
    using assms(2) by simp
  from search_resumes_hits [OF f(1) this, of 1 nm]
  have "snd (search_resumes nm ?s' v 1) =
     Some (fold (add_hit (index_to_id (id_to_index ?s')) (metadata ?s'))
             (take (min 1 (ntotal ?ix')) (ranking nm ?ix' ?q)) no_results)"
    by simp
  moreover have "min 1 (ntotal ?ix') = 1"
    by (simp add: ntotal_def)
  moreover note ranking_head [OF assms(4,5)]
  moreover have "map_of (index_to_id (id_to_index ?s')) (ntotal ix) = Some rid"
    using assms(3) by (simp add: f(3) update_absent index_to_id_snoc update_conv')
  moreover have "map_of (metadata ?s') rid =
      Some \<lparr>resume_text = doc, resume_metadata = (case md of None \<Rightarrow> [] | Some m \<Rightarrow> m)\<rparr>"
    by (simp add: f(2) update_conv')
  ultimately have "snd (search_resumes nm ?s' v 1) =
       Some \<lparr>ids = [rid], distances = [0], documents = [doc],
             metadatas = [case md of None \<Rightarrow> [] | Some m \<Rightarrow> m]\<rparr>"
    by (simp add: add_hit_def no_results_def)
  moreover have "snd (add_resume nm io s rid doc v md) = True"
    using assms(1,2) by (rule add_resume_Some(1))
  ultimately show ?thesis
    by simp
qed

theorem add_then_search_finds_the_id_witness:
  "index one_resume = Some \<lparr>idx_d = 384, idx_xb = [e1]\<rparr> \<and>
   length e2 = idx_d \<lparr>idx_d = 384, idx_xb = [e1]\<rparr> \<and>
   ''r2'' \<notin> fst ` set (id_to_index one_resume) \<and>
   fvec_L2sqr exact (map (float32 exact) e2) (map (float32 exact) e2) = Some 0 \<and>
   fvec_L2sqr exact (map (float32 exact) e2) e1 = Some 2 \<and>
   snd (add_resume exact all_written one_resume ''r2'' ''designer'' e2 None) = True \<and>
   snd (search_resumes exact
          (fst (add_resume exact all_written one_resume ''r2'' ''designer'' e2 None)) e2 1) =
     Some \<lparr>ids = [''r2''], distances = [0], documents = [''designer''], metadatas = [[]]\<rparr>"
proof -
  let ?ix = "\<lparr>idx_d = 384, idx_xb = [e1]\<rparr>"
  have h: "index one_resume = Some ?ix" "length e2 = idx_d ?ix"
    "''r2'' \<notin> fst ` set (id_to_index one_resume)"
    "fvec_L2sqr exact (map (float32 exact) e2) (map (float32 exact) e2) = Some 0"
    "\<forall>w \<in> set (idx_xb ?ix). \<forall>d. fvec_L2sqr exact (map (float32 exact) e2) w = Some d \<longrightarrow> 0 < d"
    by simp_all
  from add_then_search_finds_the_id [OF h, of all_written "''designer''" None] h(1-4)
  show ?thesis
    by simp
qed

text \<open>
  C7, as stated, fails: initialized from a metadata file without the key
  \<^verbatim>\<open>"id_to_index"\<close>, the service holds \<open>r1\<close> in its metadata store, and the delete of
  \<open>r1\<close> returns \<open>False\<close> (after removing the metadata entry).
\<close>

theorem delete_of_unbound_id_fails:
  "''r1'' \<in> fst ` set (metadata (initialize unbound_on_disk)) \<and>
   snd (delete_resume all_written (initialize unbound_on_disk) ''r1'') = False \<and>
   metadata (fst (delete_resume all_written (initialize unbound_on_disk) ''r1'')) = []"
  by (simp add: unbound_on_disk_def fresh_def initialize_def load_index_def load_metadata_def
      delete_resume_def Let_def)

text \<open>
  C7, amended. Delete returns \<open>False\<close> and changes nothing in memory when the id is absent
  from the metadata store. When the id is present in the metadata store and bound in the
  id-to-position map, delete returns \<open>True\<close>, removes the id from both, and rebuilds the
  id-to-position map from the remaining metadata entries: it binds exactly their ids,
  numbered from 0 in their stored order.
\<close>

theorem delete_resume_cases:
  "(rid \<notin> fst ` set (metadata s) \<longrightarrow>
      delete_resume io s rid = (s\<lparr>logged := logged s @ [Resume_not_found]\<rparr>, False)) \<and>
   (rid \<in> fst ` set (metadata s) \<and> rid \<in> fst ` set (id_to_index s) \<longrightarrow>
      snd (delete_resume io s rid) = True \<and>
      metadata (fst (delete_resume io s rid)) = AList.delete rid (metadata s) \<and>
      rid \<notin> fst ` set (metadata (fst (delete_resume io s rid))) \<and>
      rid \<notin> fst ` set (id_to_index (fst (delete_resume io s rid))) \<and>
      fst ` set (id_to_index (fst (delete_resume io s rid))) =
        fst ` set (metadata (fst (delete_resume io s rid))) \<and>
      (distinct (map fst (metadata s)) \<longrightarrow>
         id_to_index (fst (delete_resume io s rid)) =
           zip (map fst (AList.delete rid (metadata s)))
             [0..<length (AList.delete rid (metadata s))]))"
proof (intro conjI impI)
  assume "rid \<notin> fst ` set (metadata s)"
  then show "delete_resume io s rid = (s\<lparr>logged := logged s @ [Resume_not_found]\<rparr>, False)"
    by (rule delete_resume_absent)
next
  assume "rid \<in> fst ` set (metadata s) \<and> rid \<in> fst ` set (id_to_index s)"
  then have d: "delete_resume io s rid =
     (rebuild_index io
        (s\<lparr>metadata := AList.delete rid (metadata s),
           id_to_index := AList.delete rid (id_to_index s)\<rparr>), True)"
    by (simp add: delete_resume_present)
  show "snd (delete_resume io s rid) = True"
    by (simp add: d)
  show m: "metadata (fst (delete_resume io s rid)) = AList.delete rid (metadata s)"
    by (simp add: d)
  show "rid \<notin> fst ` set (metadata (fst (delete_resume io s rid)))"
    unfolding m by (rule delete_notin_dom)
  show k: "fst ` set (id_to_index (fst (delete_resume io s rid))) =
        fst ` set (metadata (fst (delete_resume io s rid)))"
    by (simp add: d keys_enumerate_ids)
  show "rid \<notin> fst ` set (id_to_index (fst (delete_resume io s rid)))"
    unfolding k m by (rule delete_notin_dom)
  show "id_to_index (fst (delete_resume io s rid)) =
           zip (map fst (AList.delete rid (metadata s)))
             [0..<length (AList.delete rid (metadata s))]"
    if "distinct (map fst (metadata s))"
    using that by (simp add: d enumerate_ids_distinct distinct_delete)
qed

theorem delete_resume_cases_witness:
  "''r3'' \<notin> fst ` set (metadata two_resumes) \<and>
   snd (delete_resume all_written two_resumes ''r3'') = False \<and>
   ''r2'' \<in> fst ` set (metadata two_resumes) \<and>
   ''r2'' \<in> fst ` set (id_to_index two_resumes) \<and>
   distinct (map fst (metadata two_resumes)) \<and>
   snd (delete_resume all_written two_resumes ''r2'') = True \<and>
   id_to_index (fst (delete_resume all_written two_resumes ''r2'')) = [(''r1'', 0)]"
proof -
  have a: "''r3'' \<notin> fst ` set (metadata two_resumes)"
    and p: "''r2'' \<in> fst ` set (metadata two_resumes)"
      "''r2'' \<in> fst ` set (id_to_index two_resumes)"
    and d: "distinct (map fst (metadata two_resumes))"
    by simp_all
  from delete_resume_cases [of "''r3''" two_resumes all_written] a
  have "snd (delete_resume all_written two_resumes ''r3'') = False"
    by simp
  moreover from delete_resume_cases [of "''r2''" two_resumes all_written] p d
  have "snd (delete_resume all_written two_resumes ''r2'') = True"
    and "id_to_index (fst (delete_resume all_written two_resumes ''r2'')) =
           zip (map fst (AList.delete ''r2'' (metadata two_resumes)))
             [0..<length (AList.delete ''r2'' (metadata two_resumes))]"
    by blast+
  ultimately show ?thesis
    using a p d by simp
qed

text \<open>
  C8, as stated, fails: with both writes failing, the first add on an empty service
  returns \<open>True\<close>; nothing was written, and the two failures are in the log only.
\<close>

theorem failed_write_reported_as_success:
  "add_resume exact (Write_failed, Write_failed) (initialize fresh) ''r1'' ''engineer'' e1 None =
     (one_resume\<lparr>index_file := Absent, metadata_file := Absent,
        logged := [Failed_to_save_index, Failed_to_save_metadata]\<rparr>, True)"
  by (simp add: one_resume_def all_written_def add_resume_def Let_def initialize_def
      load_index_def load_metadata_def fresh_def ensure_index_def index_add_def IndexFlatL2_def
      save_index_def save_metadata_def ntotal_def)

text \<open>
  C8, amended. For add, delete and clear, a failure while writing the persisted artifacts
  is caught and logged by the save routine and is not surfaced: whatever the outcome of the
  two writes, the operation returns what it returns when both writes succeed, the state in
  memory is the same, and the log differs by the save failures only.
\<close>

theorem write_failure_only_logged:
  "snd (add_resume nm io s rid doc v md) = snd (add_resume nm all_written s rid doc v md) \<and>
   in_memory (fst (add_resume nm io s rid doc v md)) =
     in_memory (fst (add_resume nm all_written s rid doc v md)) \<and>
   logged (fst (add_resume nm io s rid doc v md)) =
     logged (fst (add_resume nm all_written s rid doc v md)) @
       (if snd (add_resume nm io s rid doc v md) then save_failures io else []) \<and>
   snd (delete_resume io s rid) = snd (delete_resume all_written s rid) \<and>
   in_memory (fst (delete_resume io s rid)) =
     in_memory (fst (delete_resume all_written s rid)) \<and>
   logged (fst (delete_resume io s rid)) =
     logged (fst (delete_resume all_written s rid)) @
       (if snd (delete_resume io s rid) then save_failures io else []) \<and>
   snd (clear_collection io s) = True \<and>
   in_memory (fst (clear_collection io s)) = in_memory (fst (clear_collection all_written s)) \<and>
   logged (fst (clear_collection io s)) =
     logged (fst (clear_collection all_written s)) @ save_failures io"
proof -
  have "in_memory (fst (clear_collection io s)) =
      in_memory (fst (clear_collection (Written, Written) s))"
    by (simp add: clear_collection_io)
  then show ?thesis
    unfolding all_written_def
    by (intro conjI add_resume_io delete_resume_io clear_collection_io
        logged_add_resume logged_delete_resume logged_clear_collection)
qed

text \<open>
  C9, as stated, fails. With both files unreadable, initialize returns with an empty index
  and empty dictionaries, the two failures in the log; and with the index file absent and
  the metadata file present, the metadata is loaded, not reset.
\<close>

theorem malformed_artifacts_load_as_empty:
  "in_memory (initialize corrupt_disk) = (Some (IndexFlatL2 384), [], []) \<and>
   logged (initialize corrupt_disk) = [Failed_to_load_index, Failed_to_load_metadata] \<and>
   index_file half_saved = Absent \<and>
   in_memory (initialize half_saved) =
     (Some (IndexFlatL2 384),
      [(''r1'', \<lparr>resume_text = ''engineer'', resume_metadata = []\<rparr>)], [(''r1'', 0)])"
  by (simp add: in_memory_def initialize_def load_index_def load_metadata_def corrupt_disk_def
      fresh_def half_saved_def restart_def add_resume_def Let_def ensure_index_def
      index_add_def IndexFlatL2_def save_index_def save_metadata_def ntotal_def)

text \<open>
  C9, amended. On startup each artifact is loaded on its own and the load never fails: the
  index is the one of the index file when that file is readable and a new empty index of
  dimension 384 when it is absent or unreadable; the two dictionaries are those of the
  metadata file when it is readable (a missing key gives an empty dictionary) and empty
  when it is absent or unreadable; an unreadable file is logged as an error; the files are
  left as they are.
\<close>

theorem initialize_loads_each_artifact:
  "index (initialize s) =
     Some (case index_file s of Good ix \<Rightarrow> ix | Absent \<Rightarrow> IndexFlatL2 384
           | Malformed \<Rightarrow> IndexFlatL2 384) \<and>
   metadata (initialize s) =
     (case metadata_file s of
        Good j \<Rightarrow> (case json_metadata j of None \<Rightarrow> [] | Some m \<Rightarrow> m)
      | Absent \<Rightarrow> [] | Malformed \<Rightarrow> []) \<and>
   id_to_index (initialize s) =
     (case metadata_file s of
        Good j \<Rightarrow> (case json_id_to_index j of None \<Rightarrow> [] | Some m \<Rightarrow> m)
      | Absent \<Rightarrow> [] | Malformed \<Rightarrow> []) \<and>
   logged (initialize s) =
     logged s @ (if index_file s = Malformed then [Failed_to_load_index] else [])
              @ (if metadata_file s = Malformed then [Failed_to_load_metadata] else []) \<and>
   index_file (initialize s) = index_file s \<and>
   metadata_file (initialize s) = metadata_file s"
  by (simp add: initialize_def load_index_def load_metadata_def
      split: artifact.splits option.splits)

text \<open>
  C10, as stated, fails. A vector of another dimension makes the call return \<open>False\<close>.
  And in the state reached by two adds, the delete of the second id and the add of \<open>r3\<close>,
  where \<open>r1\<close> and \<open>r3\<close> are both bound to position 0, a second add of \<open>r1\<close> leaves
  \<open>r3\<close> bound to position 0, which holds the vector of \<open>r3\<close>.
\<close>

theorem readd_leaves_position_bound:
  "snd (add_resume exact all_written one_resume ''r1'' ''manager'' [] None) = False \<and>
   map_of (id_to_index collided) ''r1'' = Some 0 \<and>
   snd (add_resume exact all_written collided ''r1'' ''engineer'' e1 None) = True \<and>
   map_of (id_to_index (fst (add_resume exact all_written collided ''r1'' ''engineer'' e1 None)))
     ''r3'' = Some 0 \<and>
   index (fst (add_resume exact all_written collided ''r1'' ''engineer'' e1 None)) =
     Some \<lparr>idx_d = 384, idx_xb = [e2, e1]\<rparr>"
proof -
  have "snd (add_resume exact all_written one_resume ''r1'' ''manager'' [] None) = False"
    by (simp add: add_resume_mismatch [where ix = "\<lparr>idx_d = 384, idx_xb = [e1]\<rparr>"])
  moreover have "snd (add_resume exact all_written collided ''r1'' ''engineer'' e1 None) = True"
    by (simp add: add_resume_Some(1) [where ix = "\<lparr>idx_d = 384, idx_xb = [e2]\<rparr>"])
  ultimately show ?thesis
    by (simp add: add_resume_fields [where ix = "\<lparr>idx_d = 384, idx_xb = [e2]\<rparr>"])
qed

text \<open>
  C10, amended. For every state with a loaded index in which the id is present, and every
  vector of the index's dimension, add returns \<open>True\<close>, replaces the stored record, binds
  the id to the position of the appended vector (the count before the call), the count of
  \<^const>\<open>get_collection_stats\<close> grows by one and \<^const>\<open>list_all_resumes\<close> is unchanged.
  When the id was bound to an occupied position, the vector at that position stays there,
  and no id is bound to that position afterwards provided no other id was bound to it
  before.
\<close>

theorem add_existing_id_rebinds:
  assumes "rid \<in> fst ` set (metadata s)" and "index s = Some ix" and "length v = idx_d ix"
  shows "snd (add_resume nm io s rid doc v md) = True \<and>
     total_items (snd (get_collection_stats (fst (add_resume nm io s rid doc v md)))) =
       total_items (snd (get_collection_stats s)) + 1 \<and>
     list_all_resumes (fst (add_resume nm io s rid doc v md)) = list_all_resumes s \<and>
     map_of (metadata (fst (add_resume nm io s rid doc v md))) rid =
       Some \<lparr>resume_text = doc,
             resume_metadata = (case md of None \<Rightarrow> [] | Some m \<Rightarrow> m)\<rparr> \<and>
     map_of (id_to_index (fst (add_resume nm io s rid doc v md))) rid =
       Some (total_items (snd (get_collection_stats s))) \<and>
     index (fst (add_resume nm io s rid doc v md)) = Some (ix\<lparr>idx_xb := idx_xb ix @ [map (float32 nm) v]\<rparr>) \<and>
     (\<forall>p. map_of (id_to_index s) rid = Some p \<and> p < ntotal ix \<longrightarrow>
        (idx_xb ix @ [map (float32 nm) v]) ! p = idx_xb ix ! p \<and>
        ((\<forall>k. k \<noteq> rid \<longrightarrow> map_of (id_to_index s) k \<noteq> Some p) \<longrightarrow>
         (\<forall>k. map_of (id_to_index (fst (add_resume nm io s rid doc v md))) k \<noteq> Some p)))"
proof -
  let ?s' = "fst (add_resume nm io s rid doc v md)"
  note f = add_resume_fields [OF assms(2,3), of nm io rid doc md]
  have "snd (add_resume nm io s rid doc v md) = True"
    using assms(2,3) by (rule add_resume_Some(1))
  moreover have "total_items (snd (get_collection_stats ?s')) =
      total_items (snd (get_collection_stats s)) + 1"
    by (simp add: get_collection_stats_Some [OF f(1)] get_collection_stats_Some [OF assms(2)]
        ntotal_def)
  moreover have "list_all_resumes ?s' = list_all_resumes s"
    using assms(1) by (simp add: list_all_resumes_def f(2) map_fst_update_present)
  moreover have "map_of (metadata ?s') rid =
      Some \<lparr>resume_text = doc, resume_metadata = (case md of None \<Rightarrow> [] | Some m \<Rightarrow> m)\<rparr>"
    by (simp add: f(2) update_conv')
  moreover have "map_of (id_to_index ?s') rid = Some (total_items (snd (get_collection_stats s)))"
    by (simp add: f(3) update_conv' get_collection_stats_Some [OF assms(2)])
  moreover have "(idx_xb ix @ [map (float32 nm) v]) ! p = idx_xb ix ! p" if "p < ntotal ix" for p
    using that by (simp add: ntotal_def nth_append)
  moreover have "map_of (id_to_index ?s') k \<noteq> Some p"
    if "p < ntotal ix" and "\<forall>k. k \<noteq> rid \<longrightarrow> map_of (id_to_index s) k \<noteq> Some p" for p k
    using that by (cases "k = rid") (simp_all add: f(3) update_conv')
  ultimately show ?thesis
    using f(1) by blast
qed

theorem add_existing_id_rebinds_witness:
  "''r1'' \<in> fst ` set (metadata one_resume) \<and>
   index one_resume = Some \<lparr>idx_d = 384, idx_xb = [e1]\<rparr> \<and>
   length e2 = idx_d \<lparr>idx_d = 384, idx_xb = [e1]\<rparr> \<and>
   map_of (id_to_index one_resume) ''r1'' = Some 0 \<and>
   0 < ntotal \<lparr>idx_d = 384, idx_xb = [e1]\<rparr> \<and>
   (\<forall>k. k = ''r1'' \<or> map_of (id_to_index one_resume) k \<noteq> Some 0) \<and>
   snd (add_resume exact all_written one_resume ''r1'' ''manager'' e2 None) = True \<and>
   list_all_resumes (fst (add_resume exact all_written one_resume ''r1'' ''manager'' e2 None)) =
     list_all_resumes one_resume \<and>
   total_items (snd (get_collection_stats
       (fst (add_resume exact all_written one_resume ''r1'' ''manager'' e2 None)))) = 2 \<and>
   (\<forall>k. map_of (id_to_index (fst (add_resume exact all_written one_resume ''r1'' ''manager'' e2 None)))
          k \<noteq> Some 0)"
proof -
  have h: "''r1'' \<in> fst ` set (metadata one_resume)"
    "index one_resume = Some \<lparr>idx_d = 384, idx_xb = [e1]\<rparr>"
    "length e2 = idx_d \<lparr>idx_d = 384, idx_xb = [e1]\<rparr>"
    by simp_all
  have b: "map_of (id_to_index one_resume) ''r1'' = Some 0"
    "0 < ntotal \<lparr>idx_d = 384, idx_xb = [e1]\<rparr>"
    by (simp_all add: ntotal_def)
  have o: "\<forall>k. k \<noteq> ''r1'' \<longrightarrow> map_of (id_to_index one_resume) k \<noteq> Some 0"
    by simp
  have t: "total_items (snd (get_collection_stats one_resume)) + 1 = 2"
    by (simp add: ntotal_def)
  from add_existing_id_rebinds [OF h, of exact all_written "''manager''" None] b o t
  show ?thesis
    using h by (simp add: ntotal_def)
qed

end
